theory Spec2Isabelle
  imports Main
begin

section \<open>The pep440 range module of renovate\<close>

text \<open>
  The repository holds two revisions of the pep440 range module:
  \<^verbatim>\<open>src/lib/versioning/pep440/range.ts\<close> and \<^verbatim>\<open>src/unnamed/part_001\<close>. Both export
  \<^verbatim>\<open>getNewValue\<close> and \<^verbatim>\<open>isLessThanRange\<close> and hold a private \<^verbatim>\<open>getFutureVersion\<close>.
  The definitions of \<^verbatim>\<open>range.ts\<close> keep the source's names; those of \<^verbatim>\<open>part_001\<close>
  carry the suffix \<open>_p1\<close>. \<^verbatim>\<open>isLessThanRange\<close> is the same text in both files and is
  embedded once.

  Release components are natural numbers and \<open>+\<close> is exact. The source adds IEEE
  doubles, which give the same sum as long as it is at most \<open>2^53\<close>; beyond that the
  source rounds (\<open>2^53 + 1\<close> is \<open>2^53\<close>). A theorem whose truth depends on a sum
  being exact carries that bound as a hypothesis. Strings are byte strings.
\<close>

subsection \<open>The imported library \<^verbatim>\<open>@renovatebot/pep440\<close>\<close>

text \<open>
  The module imports \<^verbatim>\<open>gte\<close>, \<^verbatim>\<open>lt\<close>, \<^verbatim>\<open>lte\<close>, \<^verbatim>\<open>satisfies\<close>, \<^verbatim>\<open>parseRange\<close> and
  \<^verbatim>\<open>parseVersion\<close> from an npm package that is not part of the repository. They are
  parameters of every definition below, collected in the record \<open>pep440\<close>. A
  comparison may throw (the library does on a string that is no version), so
  it returns \<open>exn + bool\<close>; the parsers return \<^verbatim>\<open>null\<close> on a string they reject.
  Of a parsed version the module reads the field \<^verbatim>\<open>release\<close> only.
\<close>

datatype exn = Thrown

record Range =
  operator :: string
  prefix :: string
  version :: string

record pep440 =
  gte :: "string \<Rightarrow> string \<Rightarrow> exn + bool"
  lt :: "string \<Rightarrow> string \<Rightarrow> exn + bool"
  lte :: "string \<Rightarrow> string \<Rightarrow> exn + bool"
  satisfies :: "string \<Rightarrow> string \<Rightarrow> exn + bool"
  parseRange :: "string \<Rightarrow> Range list option"
  parseVersion :: "string \<Rightarrow> nat list option"

subsection \<open>JavaScript primitives the module uses\<close>

text \<open>\<^verbatim>\<open>parseVersion(v)?.release ?? []\<close>\<close>

definition releaseOf :: "pep440 \<Rightarrow> string \<Rightarrow> nat list" where
  "releaseOf lib v = (case parseVersion lib v of None \<Rightarrow> [] | Some r \<Rightarrow> r)"

text \<open>\<^verbatim>\<open>toRelease[index] || 0\<close>: a read past the end is \<^verbatim>\<open>undefined\<close>, which is falsy.\<close>

definition nth0 :: "nat list \<Rightarrow> nat \<Rightarrow> nat" where
  "nth0 xs i = (if i < length xs then xs ! i else 0)"

text \<open>
  \<^verbatim>\<open>a[k] += step\<close>. Every index the module computes lies within the array, but for
  \<^verbatim>\<open>a[a.length - 1]\<close> on the empty array: \<^verbatim>\<open>a[-1] += step\<close> sets a property that \<^verbatim>\<open>join\<close>
  does not read, so the list stays as it is.
\<close>

definition addAt :: "nat list \<Rightarrow> nat \<Rightarrow> nat \<Rightarrow> nat list" where
  "addAt xs k step = (if k < length xs then xs[k := xs ! k + step] else xs)"

text \<open>\<^verbatim>\<open>a[a.length - 1] += step\<close>\<close>

definition addLast :: "nat list \<Rightarrow> nat \<Rightarrow> nat list" where
  "addLast xs step = (if xs = [] then xs else addAt xs (length xs - 1) step)"

text \<open>\<^verbatim>\<open>String(n)\<close> for a non-negative integer: its decimal digits.\<close>

definition digitChar :: "nat \<Rightarrow> char" where
  "digitChar d = char_of (48 + d)"

fun showNat :: "nat \<Rightarrow> string" where
  "showNat n = (if n < 10 then [digitChar n] else showNat (n div 10) @ [digitChar (n mod 10)])"

declare showNat.simps [simp del]

text \<open>\<^verbatim>\<open>parts.join(sep)\<close>\<close>

fun join :: "string \<Rightarrow> string list \<Rightarrow> string" where
  "join sep [] = []"
| "join sep [x] = x"
| "join sep (x # y # ys) = x @ sep @ join sep (y # ys)"

subsection \<open>\<^verbatim>\<open>getFutureVersion\<close> of \<^verbatim>\<open>range.ts\<close>\<close>

text \<open>
  The callback of \<^verbatim>\<open>baseRelease.map\<close> reads and writes the closure variables \<^verbatim>\<open>found\<close>
  and \<^verbatim>\<open>set\<close>; the scan threads them, with the index, through the base release and
  returns the mapped array with their final values.
\<close>

fun futureScan :: "nat list \<Rightarrow> bool \<Rightarrow> int \<Rightarrow> nat \<Rightarrow> nat list \<Rightarrow> nat list \<times> bool \<times> int" where
  "futureScan toRelease found st index [] = ([], found, st)"
| "futureScan toRelease found st index (basePart # rest) =
     (let toPart = nth0 toRelease index in
      if found \<and> st = -1 then
        (case futureScan toRelease found (int index) (Suc index) rest of
           (r, f, s) \<Rightarrow> (toPart # r, f, s))
      else if found then
        (case futureScan toRelease found st (Suc index) rest of
           (r, f, s) \<Rightarrow> (0 # r, f, s))
      else if toPart > basePart then
        (case futureScan toRelease True st (Suc index) rest of
           (r, f, s) \<Rightarrow> (toPart # r, f, s))
      else
        (case futureScan toRelease found st (Suc index) rest of
           (r, f, s) \<Rightarrow> (toPart # r, f, s)))"

definition futureRelease :: "nat list \<Rightarrow> nat list \<Rightarrow> nat \<Rightarrow> nat list" where
  "futureRelease baseRelease toRelease step =
     (case futureScan toRelease False (-1) 0 baseRelease of
        (r0, found, st) \<Rightarrow>
          (let r1 = (if st \<noteq> -1
                     then addAt r0 (nat (if st = int (length r0) - 1 then st - 1 else st)) step
                     else r0);
               r2 = (if \<not> found then addLast r1 step else r1);
               r3 = (if found \<and> st = -1 then addLast r2 step else r2)
           in r3))"

definition getFutureVersion :: "pep440 \<Rightarrow> string \<Rightarrow> string \<Rightarrow> nat \<Rightarrow> string" where
  "getFutureVersion lib baseVersion newVersion step =
     (let toRelease = releaseOf lib newVersion;
          baseRelease = releaseOf lib baseVersion
      in join ''.'' (map showNat (futureRelease baseRelease toRelease step)))"

subsection \<open>\<^verbatim>\<open>getFutureVersion\<close> of \<^verbatim>\<open>part_001\<close>\<close>

fun futureScan_p1 :: "nat list \<Rightarrow> nat \<Rightarrow> bool \<Rightarrow> nat \<Rightarrow> nat list \<Rightarrow> nat list \<times> bool" where
  "futureScan_p1 toRelease step found index [] = ([], found)"
| "futureScan_p1 toRelease step found index (basePart # rest) =
     (if found then
        (case futureScan_p1 toRelease step found (Suc index) rest of
           (r, f) \<Rightarrow> (0 # r, f))
      else
        (let toPart = nth0 toRelease index in
         if toPart > basePart then
           (case futureScan_p1 toRelease step True (Suc index) rest of
              (r, f) \<Rightarrow> ((toPart + step) # r, f))
         else
           (case futureScan_p1 toRelease step found (Suc index) rest of
              (r, f) \<Rightarrow> (toPart # r, f))))"

definition futureRelease_p1 :: "nat list \<Rightarrow> nat list \<Rightarrow> nat \<Rightarrow> nat list" where
  "futureRelease_p1 baseRelease toRelease step =
     (case futureScan_p1 toRelease step False 0 baseRelease of
        (r, found) \<Rightarrow> (if \<not> found then addLast r step else r))"

definition getFutureVersion_p1 :: "pep440 \<Rightarrow> string \<Rightarrow> string \<Rightarrow> nat \<Rightarrow> string" where
  "getFutureVersion_p1 lib baseVersion newVersion step =
     (let toRelease = releaseOf lib newVersion;
          baseRelease = releaseOf lib baseVersion
      in join ''.'' (map showNat (futureRelease_p1 baseRelease toRelease step)))"

subsection \<open>More JavaScript primitives\<close>

text \<open>\<^verbatim>\<open>s.includes(sub)\<close>\<close>

fun includesStr :: "string \<Rightarrow> string \<Rightarrow> bool" where
  "includesStr [] sub = (sub = [])"
| "includesStr (c # cs) sub = (take (length sub) (c # cs) = sub \<or> includesStr cs sub)"

text \<open>\<^verbatim>\<open>result.replace(regEx(/, /g), ',')\<close>: every comma followed by a space loses the space.\<close>

fun replaceCommaSpace :: "string \<Rightarrow> string" where
  "replaceCommaSpace (c # d # cs) =
     (if c = CHR '','' \<and> d = CHR '' '' then CHR '','' # replaceCommaSpace cs
      else c # replaceCommaSpace (d # cs))"
| "replaceCommaSpace cs = cs"

text \<open>
  \<^verbatim>\<open>ranges.map(f)\<close> for a callback that calls the library: the first call that throws
  ends the map.
\<close>

fun mapThrowing :: "('a \<Rightarrow> exn + 'b) \<Rightarrow> 'a list \<Rightarrow> exn + 'b list" where
  "mapThrowing f [] = Inr []"
| "mapThrowing f (x # xs) =
     (case f x of
        Inl e \<Rightarrow> Inl e
      | Inr y \<Rightarrow> (case mapThrowing f xs of Inl e \<Rightarrow> Inl e | Inr ys \<Rightarrow> Inr (y # ys)))"

text \<open>\<^verbatim>\<open>.filter(Boolean)\<close> on an array of strings and \<^verbatim>\<open>null\<close>: \<^verbatim>\<open>null\<close> and \<^verbatim>\<open>''\<close> are falsy.\<close>

fun filterBoolean :: "string option list \<Rightarrow> string list" where
  "filterBoolean [] = []"
| "filterBoolean (None # xs) = filterBoolean xs"
| "filterBoolean (Some s # xs) = (if s = [] then filterBoolean xs else s # filterBoolean xs)"

subsection \<open>\<^verbatim>\<open>getNewValue\<close> of \<^verbatim>\<open>range.ts\<close>\<close>

text \<open>
  The callback of \<^verbatim>\<open>ranges.map\<close> in \<^verbatim>\<open>getNewValue\<close> (lines 100--152), one clause to its
  new text or \<^verbatim>\<open>null\<close>.
\<close>

definition rewriteRange :: "pep440 \<Rightarrow> string \<Rightarrow> string \<Rightarrow> Range \<Rightarrow> exn + string option" where
  "rewriteRange lib rangeStrategy newVersion rng =
     (if operator rng = ''!='' then Inr (Some (operator rng @ version rng))
      else if operator rng \<in> set [''>'', ''>=''] then
        (case lte lib newVersion (version rng) of
           Inl e \<Rightarrow> Inl e
         | Inr rollback \<Rightarrow>
             if rollback then Inr (Some (''>='' @ newVersion))
             else if rangeStrategy = ''bump'' \<and> operator rng = ''>=''
               then Inr (Some (operator rng @ newVersion))
             else Inr (Some (operator rng @ version rng)))
      else if operator rng = ''<'' then
        (case gte lib newVersion (version rng) of
           Inl e \<Rightarrow> Inl e
         | Inr outside \<Rightarrow>
             if outside
               then Inr (Some (operator rng @ getFutureVersion lib (version rng) newVersion 1))
             else Inr (Some (operator rng @ version rng)))
      else if prefix rng \<noteq> [] then
        Inr (Some (operator rng @ getFutureVersion lib (version rng) newVersion 0 @ ''.*''))
      else if operator rng \<in> set [''=='', ''~='', ''<=''] then
        Inr (Some (operator rng @ newVersion))
      else Inr None)"

text \<open>
  The result is \<open>Inl\<close> when a library call throws, \<open>Inr None\<close> for \<^verbatim>\<open>null\<close> and
  \<open>Inr (Some s)\<close> for the string \<open>s\<close>.
\<close>

function getNewValue :: "pep440 \<Rightarrow> string \<Rightarrow> string \<Rightarrow> string \<Rightarrow> string \<Rightarrow> exn + string option" where
  "getNewValue lib currentValue rangeStrategy currentVersion newVersion =
     (if rangeStrategy = ''pin'' then Inr (Some (''=='' @ newVersion))
      else if currentValue = currentVersion then Inr (Some newVersion)
      else
        (case parseRange lib currentValue of
           None \<Rightarrow> Inr None
         | Some ranges \<Rightarrow>
             if ranges = [] then Inr (Some currentValue)
             else
               (case (if rangeStrategy = ''auto'' \<or> rangeStrategy = ''replace''
                      then satisfies lib newVersion currentValue else Inr False) of
                  Inl e \<Rightarrow> Inl e
                | Inr inRange \<Rightarrow>
                    if inRange then Inr (Some currentValue)
                    else if rangeStrategy \<notin> set [''replace'', ''bump'']
                      then getNewValue lib currentValue ''replace'' currentVersion newVersion
                    else if list_ex (\<lambda>rng. operator rng = ''==='') ranges then Inr None
                    else
                      (case mapThrowing (rewriteRange lib rangeStrategy newVersion) ranges of
                         Inl e \<Rightarrow> Inl e
                       | Inr rs \<Rightarrow>
                           (let result0 = join '', '' (filterBoolean rs);
                                result = (if includesStr result0 '', '' \<and> \<not> includesStr currentValue '', ''
                                          then replaceCommaSpace result0 else result0)
                            in case satisfies lib newVersion result of
                                 Inl e \<Rightarrow> Inl e
                               | Inr ok \<Rightarrow> if \<not> ok then Inr None else Inr (Some result))))))"
  by pat_completeness auto
termination
  by (relation "measure (\<lambda>(lib, cv, rs, cver, nv). if rs \<in> set [''replace'', ''bump''] then 0 else 1)")
     auto

declare getNewValue.simps [simp del]

subsection \<open>\<^verbatim>\<open>getNewValue\<close> of \<^verbatim>\<open>part_001\<close>\<close>

datatype ReplaceUserPolicy = Major | Minor | Micro | Bug

fun policyIndex :: "ReplaceUserPolicy \<Rightarrow> nat" where
  "policyIndex Major = 0"
| "policyIndex Minor = 1"
| "policyIndex Micro = 2"
| "policyIndex Bug = 3"

text \<open>
  \<^verbatim>\<open>ReplaceUserPolicy[ReplaceUserPolicy[index]]\<close>: the reverse mapping of the numeric enum
  gives the member's name for 0 to 3 and \<^verbatim>\<open>undefined\<close> otherwise (also for the -1 of a
  failed \<^verbatim>\<open>findIndex\<close>), and the name gives the member back.
\<close>

definition policyOfIndex :: "nat option \<Rightarrow> ReplaceUserPolicy option" where
  "policyOfIndex index =
     (if index = Some 0 then Some Major
      else if index = Some 1 then Some Minor
      else if index = Some 2 then Some Micro
      else if index = Some 3 then Some Bug
      else None)"

text \<open>\<^verbatim>\<open>arr.findIndex((el, index) => p(el, index))\<close>, \<open>None\<close> for -1.\<close>

fun findIndexFrom :: "('a \<Rightarrow> nat \<Rightarrow> bool) \<Rightarrow> nat \<Rightarrow> 'a list \<Rightarrow> nat option" where
  "findIndexFrom p i [] = None"
| "findIndexFrom p i (x # xs) = (if p x i then Some i else findIndexFrom p (Suc i) xs)"

text \<open>
  A comparison with \<^verbatim>\<open>lowerBound[index]\<close> past the end of \<^verbatim>\<open>lowerBound\<close> is a comparison
  with \<^verbatim>\<open>undefined\<close>, which is false.
\<close>

definition getUserReplacePrecision :: "pep440 \<Rightarrow> Range list \<Rightarrow> ReplaceUserPolicy option" where
  "getUserReplacePrecision lib ranges =
     (if length ranges \<noteq> 2 then None
      else
        (let lowerBound = releaseOf lib (version (ranges ! 0));
             upperBound = releaseOf lib (version (ranges ! 1));
             index = findIndexFrom (\<lambda>el index. index < length lowerBound \<and> el > lowerBound ! index)
                       0 upperBound
         in policyOfIndex index))"

definition getFutureReplaceVersion :: "pep440 \<Rightarrow> string \<Rightarrow> ReplaceUserPolicy \<Rightarrow> string" where
  "getFutureReplaceVersion lib newVersion policy =
     (let toRelease = releaseOf lib newVersion;
          futureVersion =
            map (\<lambda>(num, index).
                   if index < policyIndex policy then num
                   else if index = policyIndex policy then num + 1
                   else 0)
              (zip toRelease [0 ..< length toRelease])
      in join ''.'' (map showNat futureVersion))"

definition rewriteRange_p1 ::
  "pep440 \<Rightarrow> string \<Rightarrow> string \<Rightarrow> Range list \<Rightarrow> Range \<Rightarrow> exn + string option" where
  "rewriteRange_p1 lib rangeStrategy newVersion ranges rng =
     (if operator rng = ''!='' then Inr (Some (operator rng @ version rng))
      else if operator rng \<in> set [''>'', ''>=''] then
        (case lte lib newVersion (version rng) of
           Inl e \<Rightarrow> Inl e
         | Inr rollback \<Rightarrow>
             if rollback then Inr (Some (''>='' @ newVersion))
             else if rangeStrategy \<in> set [''replace'', ''bump''] \<and> operator rng = ''>=''
               then Inr (Some (operator rng @ newVersion))
             else Inr (Some (operator rng @ version rng)))
      else if operator rng = ''<'' then
        (case gte lib newVersion (version rng) of
           Inl e \<Rightarrow> Inl e
         | Inr outside \<Rightarrow>
             if outside then
               (let userReplacePolicy = getUserReplacePrecision lib ranges in
                case (if rangeStrategy = ''replace'' then userReplacePolicy else None) of
                  Some policy \<Rightarrow>
                    Inr (Some (operator rng @ getFutureReplaceVersion lib newVersion policy))
                | None \<Rightarrow>
                    Inr (Some (operator rng @ getFutureVersion_p1 lib (version rng) newVersion 1)))
             else Inr (Some (operator rng @ version rng)))
      else if prefix rng \<noteq> [] then
        Inr (Some (operator rng @ getFutureVersion_p1 lib (version rng) newVersion 0 @ ''.*''))
      else if operator rng \<in> set [''=='', ''~='', ''<=''] then
        Inr (Some (operator rng @ newVersion))
      else Inr None)"

function getNewValue_p1 :: "pep440 \<Rightarrow> string \<Rightarrow> string \<Rightarrow> string \<Rightarrow> string \<Rightarrow> exn + string option" where
  "getNewValue_p1 lib currentValue rangeStrategy currentVersion newVersion =
     (if rangeStrategy = ''pin'' then Inr (Some (''=='' @ newVersion))
      else if currentValue = currentVersion then Inr (Some newVersion)
      else
        (case parseRange lib currentValue of
           None \<Rightarrow> Inr None
         | Some ranges \<Rightarrow>
             if ranges = [] then Inr (Some currentValue)
             else
               (case (if rangeStrategy = ''auto'' \<or> rangeStrategy = ''replace''
                      then satisfies lib newVersion currentValue else Inr False) of
                  Inl e \<Rightarrow> Inl e
                | Inr inRange \<Rightarrow>
                    if inRange then Inr (Some currentValue)
                    else if rangeStrategy \<notin> set [''replace'', ''bump'', ''widen'']
                      then getNewValue_p1 lib currentValue ''replace'' currentVersion newVersion
                    else if list_ex (\<lambda>rng. operator rng = ''==='') ranges then Inr None
                    else
                      (case mapThrowing (rewriteRange_p1 lib rangeStrategy newVersion ranges) ranges of
                         Inl e \<Rightarrow> Inl e
                       | Inr rs \<Rightarrow>
                           (let result0 = join '', '' (filterBoolean rs);
                                result = (if includesStr result0 '', '' \<and> \<not> includesStr currentValue '', ''
                                          then replaceCommaSpace result0 else result0)
                            in case satisfies lib newVersion result of
                                 Inl e \<Rightarrow> Inl e
                               | Inr ok \<Rightarrow> if \<not> ok then Inr None else Inr (Some result))))))"
  by pat_completeness auto
termination
  by (relation "measure (\<lambda>(lib, cv, rs, cver, nv).
          if rs \<in> set [''replace'', ''bump'', ''widen''] then 0 else 1)")
     auto

declare getNewValue_p1.simps [simp del]

subsection \<open>\<^verbatim>\<open>isLessThanRange\<close>\<close>

text \<open>\<^verbatim>\<open>s.split(',')\<close>: the pieces between the separators; one empty piece for the empty string.\<close>

fun splitOn :: "char \<Rightarrow> string \<Rightarrow> string list" where
  "splitOn d [] = [[]]"
| "splitOn d (c # cs) =
     (let r = splitOn d cs in if c = d then [] # r else (c # hd r) # tl r)"

text \<open>
  \<^verbatim>\<open>x.replace(regEx(/\s*/g), '')\<close> deletes every white-space character; the ASCII ones are
  modelled (space, tab, line feed, vertical tab, form feed, carriage return).
\<close>

definition isSpace :: "char \<Rightarrow> bool" where
  "isSpace c = (of_char c \<in> set [32, 9, 10, 11, 12, 13 :: nat])"

definition removeSpaces :: "string \<Rightarrow> string" where
  "removeSpaces x = filter (\<lambda>c. \<not> isSpace c) x"

text \<open>
  The alternatives of \<^verbatim>\<open>/(~=|==|!=|<=|>=|<|>|===)/\<close> in their order: at a position the
  first alternative that matches wins.
\<close>

definition opTokens :: "string list" where
  "opTokens = [''~='', ''=='', ''!='', ''<='', ''>='', ''<'', ''>'', ''==='']"

fun matchOperator :: "string list \<Rightarrow> string \<Rightarrow> string option" where
  "matchOperator [] s = None"
| "matchOperator (p # ps) s = (if take (length p) s = p then Some p else matchOperator ps s)"

text \<open>
  \<^verbatim>\<open>s.split(regex)\<close> with a capturing group: the text before each match, the matched
  operator, and the text after the last match.
\<close>

function splitOperators :: "string \<Rightarrow> string list" where
  "splitOperators s =
     (if s = [] then [[]]
      else
        (case matchOperator opTokens s of
           Some p \<Rightarrow> [] # p # splitOperators (drop (length p) s)
         | None \<Rightarrow> (let r = splitOperators (tl s) in (hd s # hd r) # tl r)))"
  by pat_completeness auto
termination
  by (relation "measure length") (auto simp: opTokens_def split: if_splits)

declare splitOperators.simps [simp del]

text \<open>
  \<^verbatim>\<open>.slice(1)\<close> and the destructuring \<^verbatim>\<open>([op, version])\<close>: a missing element is
  \<^verbatim>\<open>undefined\<close>, here \<open>None\<close>.
\<close>

definition clauseTokens :: "string \<Rightarrow> string option \<times> string option" where
  "clauseTokens x =
     (let parts = drop 1 (splitOperators (removeSpaces x))
      in (if 0 < length parts then Some (parts ! 0) else None,
          if 1 < length parts then Some (parts ! 1) else None))"

text \<open>
  The second \<^verbatim>\<open>map\<close> callback reads and clears the closure variable \<^verbatim>\<open>invertResult\<close>;
  the scan threads it through the clauses. The library throws when it is handed
  \<^verbatim>\<open>undefined\<close> for a version.
\<close>

definition compareWith ::
  "(string \<Rightarrow> string \<Rightarrow> exn + bool) \<Rightarrow> string \<Rightarrow> string option \<Rightarrow> exn + bool" where
  "compareWith cmp input ver = (case ver of None \<Rightarrow> Inl Thrown | Some v \<Rightarrow> cmp input v)"

fun checkClauses ::
  "pep440 \<Rightarrow> string \<Rightarrow> bool \<Rightarrow> (string option \<times> string option) list \<Rightarrow> exn + (bool list \<times> bool)" where
  "checkClauses lib input invertResult [] = Inr ([], invertResult)"
| "checkClauses lib input invertResult ((oper, ver) # rest) =
     (if oper \<in> set [Some ''!='', Some ''<='', Some ''<''] then
        (case checkClauses lib input invertResult rest of
           Inl e \<Rightarrow> Inl e
         | Inr (rs, flag) \<Rightarrow> Inr (True # rs, flag))
      else
        (case (if oper \<in> set [Some ''~='', Some ''=='', Some ''>='', Some ''===''] then
                 compareWith (lt lib) input ver
               else if oper = Some ''>'' then compareWith (lte lib) input ver
               else Inr False) of
           Inl e \<Rightarrow> Inl e
         | Inr res \<Rightarrow>
             (case checkClauses lib input False rest of
                Inl e \<Rightarrow> Inl e
              | Inr (rs, flag) \<Rightarrow> Inr (res # rs, flag))))"

text \<open>The body of the \<^verbatim>\<open>try\<close> block.\<close>

definition isLessThanRange_try :: "pep440 \<Rightarrow> string \<Rightarrow> string \<Rightarrow> exn + bool" where
  "isLessThanRange_try lib input rng =
     (case checkClauses lib input True (map clauseTokens (splitOn CHR '','' rng)) of
        Inl e \<Rightarrow> Inl e
      | Inr (results, invertResult) \<Rightarrow>
          (let result = list_all (\<lambda>res. res = True) results
           in Inr (if invertResult then \<not> result else result)))"

text \<open>\<^verbatim>\<open>try { ... } catch (err) { return false; }\<close>\<close>

definition isLessThanRange :: "pep440 \<Rightarrow> string \<Rightarrow> string \<Rightarrow> bool" where
  "isLessThanRange lib input rng =
     (case isLessThanRange_try lib input rng of Inl err \<Rightarrow> False | Inr b \<Rightarrow> b)"

subsection \<open>Positional comparison of release tuples\<close>

text \<open>
  The comparison the specification names for release tuples: position by position, a
  missing trailing component counting as zero.
\<close>

fun tupleLess :: "nat list \<Rightarrow> nat list \<Rightarrow> bool" where
  "tupleLess [] [] = False"
| "tupleLess [] (y # ys) = (0 < y \<or> tupleLess [] ys)"
| "tupleLess (x # xs) [] = (x = 0 \<and> tupleLess xs [])"
| "tupleLess (x # xs) (y # ys) = (x < y \<or> (x = y \<and> tupleLess xs ys))"

subsection \<open>An instance of the library for plain releases\<close>

text \<open>
  Modelled from the spec: the Version-Model Adapter and the Constraint Parser (the npm
  package \<^verbatim>\<open>@renovatebot/pep440\<close>), which the repository imports and does not contain.
  The instance covers versions that are dotted decimal numbers and the clause grammar
  of the specification (an operator, a version, an optional \<^verbatim>\<open>.*\<close>). It gives the
  theorems below concrete inputs; no theorem about the module assumes it.
\<close>

definition isDigit :: "char \<Rightarrow> bool" where
  "isDigit c = (48 \<le> (of_char c :: nat) \<and> (of_char c :: nat) \<le> 57)"

definition digitsValue :: "string \<Rightarrow> nat" where
  "digitsValue ds = foldl (\<lambda>n c. 10 * n + (of_char c - 48)) 0 ds"

text \<open>Modelled from the spec: a version string parses to its release tuple, \<open>None\<close> if it is no dotted number.\<close>

definition refParseVersion :: "string \<Rightarrow> nat list option" where
  "refParseVersion s =
     (let parts = splitOn CHR ''.'' s
      in if list_all (\<lambda>p. p \<noteq> [] \<and> list_all isDigit p) parts
         then Some (map digitsValue parts) else None)"

text \<open>Modelled from the spec: a comparison of two version strings; it throws on a string that is no version.\<close>

definition refCompare :: "(nat list \<Rightarrow> nat list \<Rightarrow> bool) \<Rightarrow> string \<Rightarrow> string \<Rightarrow> exn + bool" where
  "refCompare rel a b =
     (case refParseVersion a of
        None \<Rightarrow> Inl Thrown
      | Some x \<Rightarrow> (case refParseVersion b of None \<Rightarrow> Inl Thrown | Some y \<Rightarrow> Inr (rel x y)))"

definition trim :: "string \<Rightarrow> string" where
  "trim s = rev (dropWhile isSpace (rev (dropWhile isSpace s)))"

text \<open>
  Modelled from the spec: one clause is an operator of the clause grammar, a version and
  an optional wildcard suffix, which only the equality operators take; the legacy
  operator \<^verbatim>\<open>===\<close> takes any text.
\<close>

definition refParseClause :: "string \<Rightarrow> Range option" where
  "refParseClause x =
     (let t = trim x in
      case matchOperator [''==='', ''~='', ''=='', ''!='', ''<='', ''>='', ''<'', ''>''] t of
        None \<Rightarrow> None
      | Some oper \<Rightarrow>
          (let rest = dropWhile isSpace (drop (length oper) t);
               wild = (2 \<le> length rest \<and> drop (length rest - 2) rest = ''.*'');
               v = (if wild then take (length rest - 2) rest else rest)
           in if oper = ''==='' then
                (if rest = [] then None else Some \<lparr>operator = oper, prefix = [], version = rest\<rparr>)
              else
                (case refParseVersion v of
                   None \<Rightarrow> None
                 | Some r \<Rightarrow>
                     if wild \<and> oper \<notin> set [''=='', ''!=''] then None
                     else if oper = ''~='' \<and> length r < 2 then None
                     else Some \<lparr>operator = oper, prefix = (if wild then ''.*'' else []),
                                 version = v\<rparr>)))"

fun allSome :: "'a option list \<Rightarrow> 'a list option" where
  "allSome [] = Some []"
| "allSome (None # xs) = None"
| "allSome (Some x # xs) = (case allSome xs of None \<Rightarrow> None | Some ys \<Rightarrow> Some (x # ys))"

text \<open>
  Modelled from the spec: a constraint is a comma-separated sequence of clauses; the
  blank string is the empty, unconstrained sequence; one bad clause rejects the whole.
\<close>

definition refParseRange :: "string \<Rightarrow> Range list option" where
  "refParseRange s =
     (if list_all isSpace s then Some []
      else allSome (map refParseClause (splitOn CHR '','' s)))"

definition prefixMatch :: "nat list \<Rightarrow> nat list \<Rightarrow> bool" where
  "prefixMatch r p = (take (length p) (r @ replicate (length p - length r) 0) = p)"

text \<open>Modelled from the spec: whether a release satisfies one clause.\<close>

definition refContains :: "string \<Rightarrow> nat list \<Rightarrow> Range \<Rightarrow> bool" where
  "refContains v r c =
     (let p = (case refParseVersion (version c) of None \<Rightarrow> [] | Some q \<Rightarrow> q);
          same = (if prefix c \<noteq> [] then prefixMatch r p
                  else \<not> tupleLess r p \<and> \<not> tupleLess p r)
      in if operator c = ''=='' then same
         else if operator c = ''!='' then \<not> same
         else if operator c = ''<='' then \<not> tupleLess p r
         else if operator c = ''>='' then \<not> tupleLess r p
         else if operator c = ''<'' then tupleLess r p
         else if operator c = ''>'' then tupleLess p r
         else if operator c = ''~='' then \<not> tupleLess r p \<and> prefixMatch r (butlast p)
         else v = version c)"

text \<open>
  Modelled from the spec: a version satisfies a constraint when the constraint parses
  and the version satisfies every clause of it.
\<close>

definition refSatisfies :: "string \<Rightarrow> string \<Rightarrow> exn + bool" where
  "refSatisfies v spec =
     (case refParseRange spec of
        None \<Rightarrow> Inr False
      | Some cs \<Rightarrow>
          (case refParseVersion v of
             None \<Rightarrow> Inr False
           | Some r \<Rightarrow> Inr (list_all (refContains v r) cs)))"

definition refLib :: pep440 where
  "refLib =
     \<lparr>gte = refCompare (\<lambda>x y. \<not> tupleLess x y),
      lt = refCompare tupleLess,
      lte = refCompare (\<lambda>x y. \<not> tupleLess y x),
      satisfies = refSatisfies,
      parseRange = refParseRange,
      parseVersion = refParseVersion\<rparr>"

subsection \<open>The advance point\<close>

text \<open>
  The first position of the base release at which the target's component (zero when the
  target is shorter) exceeds the base's: the specification's ``advance point''.
\<close>

definition advancePoint :: "nat list \<Rightarrow> nat list \<Rightarrow> nat option" where
  "advancePoint baseRelease toRelease =
     findIndexFrom (\<lambda>basePart index. nth0 toRelease index > basePart) 0 baseRelease"

subsection \<open>The specification's wording, as definitions\<close>

text \<open>
  Section 4.1 of the specification on an output \<open>out\<close> of the synthesizer: at the advance
  point the output is the target's component plus the step, every later position is
  zero and every earlier position copies the target; with no advance point the last
  position is the target's component there plus the step.
\<close>

definition advanceSpec :: "nat list \<Rightarrow> nat list \<Rightarrow> nat \<Rightarrow> nat list \<Rightarrow> bool" where
  "advanceSpec baseRelease toRelease step out =
     (case advancePoint baseRelease toRelease of
        Some i \<Rightarrow>
          out = map (nth0 toRelease) [0 ..< i] @ [nth0 toRelease i + step]
                  @ replicate (length baseRelease - Suc i) 0
      | None \<Rightarrow>
          if baseRelease = [] then True
          else length out = length baseRelease
             \<and> out ! (length baseRelease - 1) = nth0 toRelease (length baseRelease - 1) + step)"

text \<open>
  The inputs on which the scan of \<^verbatim>\<open>range.ts\<close> and the scan of \<^verbatim>\<open>part_001\<close> end in the
  same tuple: no advance point, an advance point at the last position, or a zero target
  component right after the advance point together with an advance point at the last
  position but one or a step of zero.
\<close>

definition agreeCondition :: "nat list \<Rightarrow> nat list \<Rightarrow> nat \<Rightarrow> bool" where
  "agreeCondition baseRelease toRelease step =
     (case advancePoint baseRelease toRelease of
        None \<Rightarrow> True
      | Some i \<Rightarrow>
          Suc i = length baseRelease
        \<or> (nth0 toRelease (Suc i) = 0 \<and> (Suc (Suc i) = length baseRelease \<or> step = 0)))"

text \<open>
  Section 4.5 of the specification on one tokenised clause, and on the whole check: a
  clause is restrictive unless its operator is \<^verbatim>\<open>!=\<close>, \<^verbatim>\<open><=\<close> or \<^verbatim>\<open><\<close>; the result is the
  conjunction of the clause results, inverted when no clause is restrictive.
\<close>

definition restrictive_spec :: "string option \<times> string option \<Rightarrow> bool" where
  "restrictive_spec c = (fst c \<notin> set [Some ''!='', Some ''<='', Some ''<''])"

definition clauseResult_spec :: "pep440 \<Rightarrow> string \<Rightarrow> string option \<times> string option \<Rightarrow> bool" where
  "clauseResult_spec lib input c =
     (if fst c \<in> set [Some ''!='', Some ''<='', Some ''<''] then True
      else if fst c \<in> set [Some ''~='', Some ''=='', Some ''>='', Some ''===''] then
        compareWith (lt lib) input (snd c) = Inr True
      else if fst c = Some ''>'' then compareWith (lte lib) input (snd c) = Inr True
      else False)"

definition isBelowRange_spec :: "pep440 \<Rightarrow> string \<Rightarrow> string \<Rightarrow> bool" where
  "isBelowRange_spec lib input rng =
     (let clauses = map clauseTokens (splitOn CHR '','' rng);
          conj = list_all (clauseResult_spec lib input) clauses
      in if list_ex restrictive_spec clauses then conj else \<not> conj)"

text \<open>The clauses the rule table of \<^verbatim>\<open>getNewValue\<close> has a rule for.\<close>

definition classifiable :: "Range \<Rightarrow> bool" where
  "classifiable rng =
     (operator rng \<in> set [''!='', ''>'', ''>='', ''<'', ''=='', ''~='', ''<=''] \<or> prefix rng \<noteq> [])"

section \<open>Properties of \<^verbatim>\<open>getFutureVersion\<close>\<close>

subsection \<open>Closed forms of the two scans\<close>

lemma findIndexFrom_Some:
  "findIndexFrom p k xs = Some i \<Longrightarrow>
     k \<le> i \<and> i < k + length xs \<and> p (xs ! (i - k)) i \<and> (\<forall>j. k \<le> j \<and> j < i \<longrightarrow> \<not> p (xs ! (j - k)) j)"
proof (induction xs arbitrary: k)
  case Nil
  then show ?case by simp
next
  case (Cons x xs)
  show ?case
  proof (cases "p x k")
    case True
    with Cons.prems show ?thesis by auto
  next
    case False
    with Cons.prems have r: "findIndexFrom p (Suc k) xs = Some i" by simp
    from Cons.IH [OF r] have a: "Suc k \<le> i" "i < Suc k + length xs" "p (xs ! (i - Suc k)) i"
      and b: "\<forall>j. Suc k \<le> j \<and> j < i \<longrightarrow> \<not> p (xs ! (j - Suc k)) j" by auto
    have "\<not> p ((x # xs) ! (j - k)) j" if "k \<le> j" "j < i" for j
    proof (cases "j = k")
      case True
      with False show ?thesis by simp
    next
      case F: False
      with that have "Suc k \<le> j" by simp
      with b that have "\<not> p (xs ! (j - Suc k)) j" by simp
      moreover from \<open>Suc k \<le> j\<close> have "j - k = Suc (j - Suc k)" by simp
      ultimately show ?thesis by simp
    qed
    moreover from a have "(x # xs) ! (i - k) = xs ! (i - Suc k)"
      by (simp add: nth_Cons') 
    ultimately show ?thesis using a by auto
  qed
qed

lemma findIndexFrom_None:
  "findIndexFrom p k xs = None \<Longrightarrow> j < length xs \<Longrightarrow> \<not> p (xs ! j) (k + j)"
proof (induction xs arbitrary: k j)
  case Nil
  then show ?case by simp
next
  case (Cons x xs)
  from Cons.prems have nx: "\<not> p x k" and r: "findIndexFrom p (Suc k) xs = None"
    by (auto split: if_splits)
  show ?case
  proof (cases j)
    case 0
    with nx show ?thesis by simp
  next
    case (Suc j')
    with Cons.prems have "j' < length xs" by simp
    from Cons.IH [OF r this] Suc show ?thesis by simp
  qed
qed

lemma futureScan_p1_found:
  "futureScan_p1 to step True k bs = (replicate (length bs) 0, True)"
  by (induction bs arbitrary: k) auto

lemma futureScan_p1_closed:
  "futureScan_p1 to step False k bs =
     (case findIndexFrom (\<lambda>basePart index. nth0 to index > basePart) k bs of
        None \<Rightarrow> (map (nth0 to) [k ..< k + length bs], False)
      | Some i \<Rightarrow> (map (nth0 to) [k ..< i] @ [nth0 to i + step] @ replicate (k + length bs - Suc i) 0, True))"
proof (induction bs arbitrary: k)
  case Nil
  then show ?case by simp
next
  case (Cons b bs)
  have u: "[k ..< k + length (b # bs)] = k # [Suc k ..< Suc k + length bs]"
    by (simp add: upt_conv_Cons del: upt_Suc)
  show ?case
  proof (cases "nth0 to k > b")
    case True
    then show ?thesis by (simp add: futureScan_p1_found)
  next
    case False
    show ?thesis
    proof (cases "findIndexFrom (\<lambda>basePart index. nth0 to index > basePart) (Suc k) bs")
      case None
      with False Cons.IH [of "Suc k"] u show ?thesis
        by (simp del: upt_Suc)
    next
      case (Some i)
      from findIndexFrom_Some [OF Some] have "Suc k \<le> i" by simp
      then have "[k ..< i] = k # [Suc k ..< i]"
        by (simp add: upt_conv_Cons del: upt_Suc)
      with Some False Cons.IH [of "Suc k"] show ?thesis
        by (simp del: upt_Suc)
    qed
  qed
qed

lemma addLast_snoc: "addLast (xs @ [x]) step = xs @ [x + step]"
  by (simp add: addLast_def addAt_def)

lemma addAt_append: "addAt (xs @ y # zs) (length xs) step = xs @ (y + step) # zs"
  by (simp add: addAt_def)

lemma futureRelease_p1_closed:
  "futureRelease_p1 base to step =
     (case advancePoint base to of
        None \<Rightarrow> addLast (map (nth0 to) [0 ..< length base]) step
      | Some i \<Rightarrow> map (nth0 to) [0 ..< i] @ [nth0 to i + step] @ replicate (length base - Suc i) 0)"
  by (simp add: futureRelease_p1_def advancePoint_def futureScan_p1_closed split: option.splits)


lemma futureScan_set:
  "st \<noteq> -1 \<Longrightarrow> futureScan to True st k bs = (replicate (length bs) 0, True, st)"
  by (induction bs arbitrary: k) auto

lemma futureScan_found:
  "futureScan to True (-1) k bs =
     (case bs of [] \<Rightarrow> ([], True, -1)
      | b # rest \<Rightarrow> (nth0 to k # replicate (length rest) 0, True, int k))"
  by (cases bs) (simp_all add: futureScan_set)

lemma futureScan_closed:
  "futureScan to False (-1) k bs =
     (case findIndexFrom (\<lambda>basePart index. nth0 to index > basePart) k bs of
        None \<Rightarrow> (map (nth0 to) [k ..< k + length bs], False, -1)
      | Some i \<Rightarrow>
          if Suc i = k + length bs then (map (nth0 to) [k ..< Suc i], True, -1)
          else (map (nth0 to) [k ..< Suc (Suc i)] @ replicate (k + length bs - Suc (Suc i)) 0,
                True, int (Suc i)))"
proof (induction bs arbitrary: k)
  case Nil
  then show ?case by simp
next
  case (Cons b bs)
  have u: "[k ..< k + length (b # bs)] = k # [Suc k ..< Suc k + length bs]"
    by (simp add: upt_conv_Cons del: upt_Suc)
  show ?case
  proof (cases "nth0 to k > b")
    case True
    show ?thesis
    proof (cases bs)
      case Nil
      with True show ?thesis by simp
    next
      case (Cons b' rest)
      have "[k ..< Suc (Suc k)] = [k, Suc k]" by (simp add: upt_conv_Cons del: upt_Suc)
      with True Cons show ?thesis by (simp add: futureScan_set del: upt_Suc)
    qed
  next
    case False
    show ?thesis
    proof (cases "findIndexFrom (\<lambda>basePart index. nth0 to index > basePart) (Suc k) bs")
      case None
      with False Cons.IH [of "Suc k"] u show ?thesis
        by (simp del: upt_Suc)
    next
      case (Some i)
      from findIndexFrom_Some [OF Some] have "Suc k \<le> i" by simp
      have h: "[k ..< m] = k # [Suc k ..< m]" if "k < m" for m
        using that by (simp add: upt_conv_Cons del: upt_Suc)
      from \<open>Suc k \<le> i\<close> have "k < Suc i" "k < Suc (Suc i)" by simp_all
      with Some False Cons.IH [of "Suc k"] show ?thesis
        by (simp add: h del: upt_Suc)
    qed
  qed
qed

lemma futureRelease_closed:
  "futureRelease base to step =
     (case advancePoint base to of
        None \<Rightarrow> addLast (map (nth0 to) [0 ..< length base]) step
      | Some i \<Rightarrow>
          if Suc i = length base then map (nth0 to) [0 ..< i] @ [nth0 to i + step]
          else if Suc (Suc i) = length base
            then map (nth0 to) [0 ..< i] @ [nth0 to i + step, nth0 to (Suc i)]
          else map (nth0 to) [0 ..< Suc i] @ [nth0 to (Suc i) + step]
                 @ replicate (length base - Suc (Suc i)) 0)"
proof (cases "advancePoint base to")
  case None
  then show ?thesis
    by (simp add: futureRelease_def advancePoint_def futureScan_closed)
next
  case (Some i)
  from Some findIndexFrom_Some [of _ 0 base i] have lt: "i < length base"
    by (simp add: advancePoint_def)
  consider "Suc i = length base" | "Suc (Suc i) = length base" | "Suc (Suc i) < length base"
    using lt by linarith
  then show ?thesis
  proof cases
    case 1
    then have len: "length base = Suc i" by simp
    with Some show ?thesis
      using addLast_snoc [of "map (nth0 to) [0 ..< i]" "nth0 to i" step]
      by (simp add: futureRelease_def advancePoint_def futureScan_closed)
  next
    case 2
    then have len: "length base = Suc (Suc i)" by simp
    have "addAt (map (nth0 to) [0 ..< i] @ nth0 to i # [nth0 to (Suc i)]) (length (map (nth0 to) [0 ..< i])) step
            = map (nth0 to) [0 ..< i] @ (nth0 to i + step) # [nth0 to (Suc i)]"
      by (rule addAt_append)
    with len Some show ?thesis
      by (simp add: futureRelease_def advancePoint_def futureScan_closed)
  next
    case 3
    have "addAt (map (nth0 to) [0 ..< Suc i] @ nth0 to (Suc i) # replicate (length base - Suc (Suc i)) 0)
               (length (map (nth0 to) [0 ..< Suc i])) step
            = map (nth0 to) [0 ..< Suc i] @ (nth0 to (Suc i) + step) # replicate (length base - Suc (Suc i)) 0"
      by (rule addAt_append)
    moreover have "nat (1 + int i) = Suc i" by simp
    ultimately show ?thesis using 3 Some
      by (simp add: futureRelease_def advancePoint_def futureScan_closed)
  qed
qed


lemma nth0_tl: "nth0 to (Suc j) = nth0 (tl to) j"
  by (cases to) (simp_all add: nth0_def)

lemma copied_Suc: "map (nth0 to) [0 ..< Suc i] = nth0 to 0 # map (nth0 (tl to)) [0 ..< i]"
  by (simp only: map_upt_Suc nth0_tl)

lemma tupleLess_right_Cons:
  "tupleLess to (y # ys) = (nth0 to 0 < y \<or> (nth0 to 0 = y \<and> tupleLess (tl to) ys))"
  by (cases to) (auto simp: nth0_def)

lemma tupleLess_copied:
  "nth0 to i < x \<Longrightarrow> tupleLess to (map (nth0 to) [0 ..< i] @ x # zs)"
proof (induction i arbitrary: to)
  case 0
  then show ?case by (simp add: tupleLess_right_Cons)
next
  case (Suc i)
  from Suc.prems have "nth0 (tl to) i < x" by (simp add: nth0_tl)
  then have "tupleLess (tl to) (map (nth0 (tl to)) [0 ..< i] @ x # zs)" by (rule Suc.IH)
  then show ?case
    by (simp add: copied_Suc tupleLess_right_Cons del: upt_Suc)
qed

lemma base_le_target_at:
  "\<forall>j<i. nth0 to j \<le> base ! j \<Longrightarrow> \<not> tupleLess to base \<Longrightarrow> i < length base \<Longrightarrow>
     base ! i \<le> nth0 to i"
proof (induction i arbitrary: to base)
  case 0
  then obtain b bs where base: "base = b # bs" by (cases base) auto
  with 0 show ?case by (auto simp: tupleLess_right_Cons)
next
  case (Suc i)
  then obtain b bs where base: "base = b # bs" by (cases base) auto
  from Suc.prems(1) base have "nth0 to 0 \<le> b" by auto
  with Suc.prems base have "\<not> tupleLess (tl to) bs" "i < length bs"
    by (auto simp: tupleLess_right_Cons)
  moreover from Suc.prems(1) base have "\<forall>j<i. nth0 (tl to) j \<le> bs ! j"
    by (auto simp: nth0_tl [symmetric])
  ultimately have "bs ! i \<le> nth0 (tl to) i" by (rule Suc.IH [rotated])
  with base show ?case by (simp add: nth0_tl)
qed

lemma tupleLess_base:
  "\<forall>j<i. nth0 to j \<le> base ! j \<Longrightarrow> \<not> tupleLess to base \<Longrightarrow> i < length base \<Longrightarrow>
     base ! i < x \<Longrightarrow> tupleLess base (map (nth0 to) [0 ..< i] @ x # zs)"
proof (induction i arbitrary: to base)
  case 0
  then obtain b bs where base: "base = b # bs" by (cases base) auto
  with 0 show ?case by simp
next
  case (Suc i)
  then obtain b bs where base: "base = b # bs" by (cases base) auto
  from Suc.prems(1) base have "nth0 to 0 \<le> b" by auto
  with Suc.prems base have *: "\<not> tupleLess (tl to) bs" "i < length bs" "bs ! i < x" "nth0 to 0 = b"
    by (auto simp: tupleLess_right_Cons)
  moreover from Suc.prems(1) base have "\<forall>j<i. nth0 (tl to) j \<le> bs ! j"
    by (auto simp: nth0_tl [symmetric])
  ultimately have "tupleLess bs (map (nth0 (tl to)) [0 ..< i] @ x # zs)"
    using Suc.IH [of "tl to" bs] by blast
  with base *(4) show ?case
    by (simp add: copied_Suc del: upt_Suc)
qed

lemma advancePoint_Some:
  assumes "advancePoint base to = Some i"
  shows "i < length base" "base ! i < nth0 to i" "\<forall>j<i. nth0 to j \<le> base ! j"
  using findIndexFrom_Some [of "\<lambda>basePart index. nth0 to index > basePart" 0 base i] assms
  by (auto simp: advancePoint_def not_less)

lemma advancePoint_None:
  assumes "advancePoint base to = None"
  shows "\<forall>j<length base. nth0 to j \<le> base ! j"
  using findIndexFrom_None [of "\<lambda>basePart index. nth0 to index > basePart" 0 base] assms
  by (auto simp: advancePoint_def not_less)

lemma addLast_copied:
  "base \<noteq> [] \<Longrightarrow> addLast (map (nth0 to) [0 ..< length base]) step =
     map (nth0 to) [0 ..< length base - 1] @ [nth0 to (length base - 1) + step]"
proof -
  assume "base \<noteq> []"
  then obtain n where n: "length base = Suc n" by (cases base) auto
  then show ?thesis
    using addLast_snoc [of "map (nth0 to) [0 ..< n]" "nth0 to n" step] by simp
qed

lemma exceeds_no_advance:
  assumes "base \<noteq> []" "0 < step" "\<not> tupleLess to base" "advancePoint base to = None"
  shows "tupleLess base (addLast (map (nth0 to) [0 ..< length base]) step)"
    and "tupleLess to (addLast (map (nth0 to) [0 ..< length base]) step)"
proof -
  let ?i = "length base - 1"
  from assms(1) have i: "?i < length base" by (cases base) auto
  from advancePoint_None [OF assms(4)] i have le: "\<forall>j<?i. nth0 to j \<le> base ! j" by auto
  from base_le_target_at [OF le assms(3) i] assms(2) have "base ! ?i < nth0 to ?i + step" by simp
  from tupleLess_base [OF le assms(3) i this, of "[]"] assms(1)
  show "tupleLess base (addLast (map (nth0 to) [0 ..< length base]) step)"
    by (simp add: addLast_copied)
  from assms(2) have "nth0 to ?i < nth0 to ?i + step" by simp
  from tupleLess_copied [OF this, of "[]"] assms(1)
  show "tupleLess to (addLast (map (nth0 to) [0 ..< length base]) step)"
    by (simp add: addLast_copied)
qed

lemma exceeds_p1:
  assumes "base \<noteq> []" "0 < step" "\<not> tupleLess to base"
  shows "tupleLess base (futureRelease_p1 base to step) \<and> tupleLess to (futureRelease_p1 base to step)"
proof (cases "advancePoint base to")
  case None
  with exceeds_no_advance [OF assms None] show ?thesis
    by (simp add: futureRelease_p1_closed)
next
  case (Some i)
  note a = advancePoint_Some [OF Some]
  from a(2) assms(2) have x: "base ! i < nth0 to i + step" "nth0 to i < nth0 to i + step" by simp_all
  from tupleLess_base [OF a(3) assms(3) a(1) x(1)] tupleLess_copied [OF x(2)] Some
  show ?thesis by (simp add: futureRelease_p1_closed)
qed

lemma exceeds_range:
  assumes "base \<noteq> []" "0 < step" "\<not> tupleLess to base"
  shows "tupleLess base (futureRelease base to step) \<and> tupleLess to (futureRelease base to step)"
proof (cases "advancePoint base to")
  case None
  with exceeds_no_advance [OF assms None] show ?thesis
    by (simp add: futureRelease_closed)
next
  case (Some i)
  note a = advancePoint_Some [OF Some]
  from a(2) assms(2) have x: "base ! i < nth0 to i + step" "nth0 to i < nth0 to i + step" by simp_all
  consider "Suc i = length base" | "Suc (Suc i) = length base" | "Suc (Suc i) < length base"
    using a(1) by linarith
  then show ?thesis
  proof cases
    case 1
    from tupleLess_base [OF a(3) assms(3) a(1) x(1), of "[]"] tupleLess_copied [OF x(2), of "[]"] Some 1
    show ?thesis by (simp add: futureRelease_closed)
  next
    case 2
    from tupleLess_base [OF a(3) assms(3) a(1) x(1), of "[nth0 to (Suc i)]"]
      tupleLess_copied [OF x(2), of "[nth0 to (Suc i)]"] Some 2
    show ?thesis by (simp add: futureRelease_closed)
  next
    case 3
    let ?zs = "replicate (length base - Suc (Suc i)) (0::nat)"
    from assms(2) have y: "nth0 to (Suc i) < nth0 to (Suc i) + step" by simp
    have "tupleLess base (map (nth0 to) [0 ..< i] @ nth0 to i # (nth0 to (Suc i) + step) # ?zs)"
      by (rule tupleLess_base [OF a(3) assms(3) a(1) a(2)])
    moreover have "tupleLess to (map (nth0 to) [0 ..< Suc i] @ (nth0 to (Suc i) + step) # ?zs)"
      by (rule tupleLess_copied [OF y])
    ultimately show ?thesis using Some 3 by (simp add: futureRelease_closed)
  qed
qed

subsection \<open>The sums stay in the exact range\<close>

lemma copied_bounded:
  assumes "\<forall>i<n. nth0 to i + step \<le> B" and "m \<le> n"
  shows "\<forall>c\<in>set (map (nth0 to) [0 ..< m]). c \<le> B"
proof
  fix c assume "c \<in> set (map (nth0 to) [0 ..< m])"
  then obtain j where "j < m" "c = nth0 to j" by auto
  with assms have "c + step \<le> B" by auto
  then show "c \<le> B" by simp
qed

lemma bounded_p1:
  assumes "\<forall>i<length base. nth0 to i + step \<le> B"
  shows "\<forall>c\<in>set (futureRelease_p1 base to step). c \<le> B"
proof (cases "advancePoint base to")
  case None
  show ?thesis
  proof (cases "base = []")
    case True
    with None show ?thesis by (simp add: futureRelease_p1_closed addLast_def)
  next
    case False
    then have n: "length base - 1 < length base" by (cases base) auto
    with assms have "nth0 to (length base - 1) + step \<le> B" by blast
    moreover from copied_bounded [OF assms, of "length base - 1"]
    have "\<forall>c\<in>set (map (nth0 to) [0 ..< length base - 1]). c \<le> B" by simp
    ultimately show ?thesis using None False
      by (simp add: futureRelease_p1_closed addLast_copied del: upt_Suc)
  qed
next
  case (Some i)
  note a = advancePoint_Some [OF Some]
  from a(1) assms have "nth0 to i + step \<le> B" by blast
  moreover from copied_bounded [OF assms, of i] a(1)
  have "\<forall>c\<in>set (map (nth0 to) [0 ..< i]). c \<le> B" by simp
  ultimately show ?thesis using Some
    by (auto simp add: futureRelease_p1_closed simp del: upt_Suc)
qed

lemma bounded_range:
  assumes "\<forall>i<length base. nth0 to i + step \<le> B"
  shows "\<forall>c\<in>set (futureRelease base to step). c \<le> B"
proof (cases "advancePoint base to")
  case None
  show ?thesis
  proof (cases "base = []")
    case True
    with None show ?thesis by (simp add: futureRelease_closed addLast_def)
  next
    case False
    then have n: "length base - 1 < length base" by (cases base) auto
    with assms have "nth0 to (length base - 1) + step \<le> B" by blast
    moreover from copied_bounded [OF assms, of "length base - 1"]
    have "\<forall>c\<in>set (map (nth0 to) [0 ..< length base - 1]). c \<le> B" by simp
    ultimately show ?thesis using None False
      by (simp add: futureRelease_closed addLast_copied del: upt_Suc)
  qed
next
  case (Some i)
  note a = advancePoint_Some [OF Some]
  from a(1) assms have x: "nth0 to i + step \<le> B" by blast
  from copied_bounded [OF assms, of i] a(1)
  have pre: "\<forall>c\<in>set (map (nth0 to) [0 ..< i]). c \<le> B" by simp
  consider "Suc i = length base" | "Suc (Suc i) = length base" | "Suc (Suc i) < length base"
    using a(1) by linarith
  then show ?thesis
  proof cases
    case 1
    with x pre Some show ?thesis
      by (auto simp add: futureRelease_closed simp del: upt_Suc)
  next
    case 2
    then have "Suc i < length base" by simp
    with assms have "nth0 to (Suc i) + step \<le> B" by blast
    with 2 x pre Some show ?thesis
      by (auto simp add: futureRelease_closed simp del: upt_Suc)
  next
    case 3
    then have "Suc i < length base" by simp
    with assms have y: "nth0 to (Suc i) + step \<le> B" by blast
    from copied_bounded [OF assms, of "Suc i"] a(1)
    have "\<forall>c\<in>set (map (nth0 to) [0 ..< Suc i]). c \<le> B" by simp
    with 3 y Some show ?thesis
      by (auto simp add: futureRelease_closed simp del: upt_Suc)
  qed
qed

subsection \<open>The scans against the specification\<close>

lemma advanceSpec_p1: "advanceSpec base to step (futureRelease_p1 base to step)"
proof (cases "advancePoint base to")
  case None
  show ?thesis
  proof (cases "base = []")
    case True
    with None show ?thesis by (simp add: advanceSpec_def)
  next
    case False
    then have "length base - 1 = length (map (nth0 to) [0 ..< length base - 1])" by simp
    with None False show ?thesis
      by (simp add: advanceSpec_def futureRelease_p1_closed addLast_copied nth_append del: upt_Suc)
  qed
next
  case (Some i)
  then show ?thesis by (simp add: advanceSpec_def futureRelease_p1_closed)
qed

lemma futureRelease_agree:
  "futureRelease base to step = futureRelease_p1 base to step \<longleftrightarrow> agreeCondition base to step"
proof (cases "advancePoint base to")
  case None
  then show ?thesis
    by (simp add: agreeCondition_def futureRelease_closed futureRelease_p1_closed)
next
  case (Some i)
  note a = advancePoint_Some [OF Some]
  consider "Suc i = length base" | "Suc (Suc i) = length base" | "Suc (Suc i) < length base"
    using a(1) by linarith
  then show ?thesis
  proof cases
    case 1
    then have "length base = Suc i" by simp
    with Some show ?thesis
      by (simp add: agreeCondition_def futureRelease_closed futureRelease_p1_closed)
  next
    case 2
    then have "length base = Suc (Suc i)" by simp
    with Some show ?thesis
      by (auto simp add: agreeCondition_def futureRelease_closed futureRelease_p1_closed)
  next
    case 3
    then obtain m where m: "length base = Suc (Suc (Suc m)) + i"
      by (metis add_Suc less_imp_Suc_add add.commute)
    with Some show ?thesis
      by (auto simp add: agreeCondition_def futureRelease_closed futureRelease_p1_closed)
  qed
qed

lemma advanceSpec_range:
  "advanceSpec base to step (futureRelease base to step) \<longleftrightarrow> agreeCondition base to step"
proof (cases "advancePoint base to")
  case None
  with advanceSpec_p1 [of base to step] show ?thesis
    by (simp add: advanceSpec_def agreeCondition_def futureRelease_closed futureRelease_p1_closed)
next
  case (Some i)
  with advanceSpec_p1 [of base to step]
  have "advanceSpec base to step (futureRelease base to step)
          \<longleftrightarrow> futureRelease base to step = futureRelease_p1 base to step"
    by (auto simp add: advanceSpec_def)
  then show ?thesis by (simp add: futureRelease_agree)
qed

subsection \<open>The future version against its inputs\<close>

text \<open>
  C3 (amended). The specification states that the release tuple \<^verbatim>\<open>getFutureVersion\<close>
  produces is strictly greater than the base and the target for every base, target and
  step. That holds, for both revisions, when the step is positive, the base release is
  not empty, the target is not below the base (the guard \<^verbatim>\<open>gte(newVersion,
  range.version)\<close> under which \<^verbatim>\<open>getNewValue\<close> calls it with step 1), and the target's
  component at every position of the base plus the step is at most \<open>2^53\<close>: the produced
  tuple is then strictly greater than both inputs under the positional comparison with
  implicit zeros, and none of its components exceeds \<open>2^53\<close>, so every sum the source
  forms is exact. (Beyond the bound the source's addition rounds: for base 1, target
  \<open>2^53\<close> and step 1 it returns the target itself.)
\<close>

theorem getFutureVersion_exceeds:
  assumes "baseRelease \<noteq> []" and "0 < step" and "\<not> tupleLess toRelease baseRelease"
    and "\<forall>i<length baseRelease. nth0 toRelease i + step \<le> 2 ^ 53"
  shows "tupleLess baseRelease (futureRelease baseRelease toRelease step)
       \<and> tupleLess toRelease (futureRelease baseRelease toRelease step)
       \<and> tupleLess baseRelease (futureRelease_p1 baseRelease toRelease step)
       \<and> tupleLess toRelease (futureRelease_p1 baseRelease toRelease step)
       \<and> list_all (\<lambda>c. c \<le> 2 ^ 53) (futureRelease baseRelease toRelease step)
       \<and> list_all (\<lambda>c. c \<le> 2 ^ 53) (futureRelease_p1 baseRelease toRelease step)"
  using exceeds_range [OF assms(1-3)] exceeds_p1 [OF assms(1-3)]
    bounded_range [OF assms(4)] bounded_p1 [OF assms(4)]
  by (simp add: list_all_iff)

theorem getFutureVersion_exceeds_witness:
  "tupleLess [2, 0, 0] (futureRelease [2, 0, 0] [2, 3, 0] 1)
   \<and> tupleLess [2, 3, 0] (futureRelease [2, 0, 0] [2, 3, 0] 1)
   \<and> tupleLess [2, 0, 0] (futureRelease_p1 [2, 0, 0] [2, 3, 0] 1)
   \<and> tupleLess [2, 3, 0] (futureRelease_p1 [2, 0, 0] [2, 3, 0] 1)
   \<and> futureRelease [2, 0, 0] [2, 3, 0] 1 = [2, 4, 0]
   \<and> futureRelease_p1 [2, 0, 0] [2, 3, 0] 1 = [2, 4, 0]"
proof -
  have h: "[2, 0, 0] \<noteq> ([] :: nat list)" "(0::nat) < 1" "\<not> tupleLess [2, 3, 0] [2, 0, 0]"
    by simp_all
  have "nth0 [2, 3, 0] i \<le> 3" for i
    by (simp add: nth0_def nth_Cons split: nat.split)
  then have "nth0 [2, 3, 0] i + 1 \<le> 2 ^ 53" for i
    by (rule order_trans [OF add_right_mono]) simp
  then have b: "\<forall>i<length [2, 0, 0 :: nat]. nth0 [2, 3, 0] i + 1 \<le> 2 ^ 53" by blast
  have v: "futureRelease [2, 0, 0] [2, 3, 0] 1 = [2, 4, 0]"
    "futureRelease_p1 [2, 0, 0] [2, 3, 0] 1 = [2, 4, 0]"
    by code_simp+
  from getFutureVersion_exceeds [OF h b] v show ?thesis by simp
qed

text \<open>
  As stated the claim fails in both revisions, already within the exact range: with
  step 0 the output is the target itself (base 1.2, target 1.4); with a target below the
  base the output does not exceed the base (base 2, target 1, step 1); and an empty base
  release gives the empty tuple.
\<close>

theorem getFutureVersion_exceeds_counterexample:
  "\<not> tupleLess [1, 4] (futureRelease [1, 2] [1, 4] 0)
   \<and> \<not> tupleLess [1, 4] (futureRelease_p1 [1, 2] [1, 4] 0)
   \<and> \<not> tupleLess [2] (futureRelease [2] [1] 1)
   \<and> \<not> tupleLess [2] (futureRelease_p1 [2] [1] 1)
   \<and> \<not> tupleLess [1] (futureRelease [] [1] 1)
   \<and> \<not> tupleLess [1] (futureRelease_p1 [] [1] 1)"
  by code_simp

text \<open>
  C5 (amended). The specification describes one walk: at the first position where the
  target's component exceeds the base's the output is the target's component plus the
  step, later positions are zero, earlier positions copy the target, and with no such
  position the last output position is the target's component plus the step. The
  \<^verbatim>\<open>getFutureVersion\<close> of \<^verbatim>\<open>part_001\<close> does so on every base, target and step. The
  \<^verbatim>\<open>getFutureVersion\<close> of \<^verbatim>\<open>range.ts\<close> does so exactly when there is no advance point, or
  it is the last position, or the target's component after it is zero and the advance
  point is the last position but one or the step is zero.
\<close>

theorem getFutureVersion_advance:
  "advanceSpec baseRelease toRelease step (futureRelease_p1 baseRelease toRelease step)
   \<and> (advanceSpec baseRelease toRelease step (futureRelease baseRelease toRelease step)
        \<longleftrightarrow> agreeCondition baseRelease toRelease step)"
  using advanceSpec_p1 [of baseRelease toRelease step]
    advanceSpec_range [of baseRelease toRelease step] by simp

theorem getFutureVersion_advance_witness:
  "advanceSpec [2, 0, 0] [2, 3, 0] 1 (futureRelease_p1 [2, 0, 0] [2, 3, 0] 1)
   \<and> futureRelease_p1 [2, 0, 0] [2, 3, 0] 1 = [2, 4, 0]
   \<and> advanceSpec [2, 0, 0] [2, 3, 0] 1 (futureRelease [2, 0, 0] [2, 3, 0] 1)
   \<and> agreeCondition [2, 0, 0] [2, 3, 0] 1"
proof -
  have "futureRelease_p1 [2, 0, 0] [2, 3, 0] 1 = [2, 4, 0]" "agreeCondition [2, 0, 0] [2, 3, 0] 1"
    by code_simp+
  with getFutureVersion_advance [of "[2, 0, 0]" "[2, 3, 0]" 1] show ?thesis by simp
qed

text \<open>
  In \<^verbatim>\<open>range.ts\<close>, base 1.0.0, target 2.3.0 and step 1 give 2.4.0: the advance point is
  position 0, where the output is 2 and not 3, and the next position is not zero.
\<close>

theorem getFutureVersion_advance_counterexample:
  "advancePoint [1, 0, 0] [2, 3, 0] = Some 0
   \<and> futureRelease [1, 0, 0] [2, 3, 0] 1 = [2, 4, 0]
   \<and> \<not> advanceSpec [1, 0, 0] [2, 3, 0] 1 (futureRelease [1, 0, 0] [2, 3, 0] 1)"
  by code_simp

text \<open>
  C10 (amended). The two revisions of \<^verbatim>\<open>getFutureVersion\<close> do not compute the same output
  on every input. They produce the same release tuple exactly on the inputs described by
  \<open>agreeCondition\<close> (no advance point, an advance point at the last position, or a zero
  target component after the advance point with the advance point last but one or the
  step zero), and on those inputs they return the same string.
\<close>

theorem getFutureVersion_revisions:
  "(futureRelease baseRelease toRelease step = futureRelease_p1 baseRelease toRelease step
      \<longleftrightarrow> agreeCondition baseRelease toRelease step)
   \<and> (agreeCondition (releaseOf lib baseVersion) (releaseOf lib newVersion) step \<longrightarrow>
        getFutureVersion lib baseVersion newVersion step
          = getFutureVersion_p1 lib baseVersion newVersion step)"
proof (intro conjI impI)
  show "futureRelease baseRelease toRelease step = futureRelease_p1 baseRelease toRelease step
          \<longleftrightarrow> agreeCondition baseRelease toRelease step"
    by (rule futureRelease_agree)
next
  assume "agreeCondition (releaseOf lib baseVersion) (releaseOf lib newVersion) step"
  then have "futureRelease (releaseOf lib baseVersion) (releaseOf lib newVersion) step
               = futureRelease_p1 (releaseOf lib baseVersion) (releaseOf lib newVersion) step"
    by (simp add: futureRelease_agree)
  then show "getFutureVersion lib baseVersion newVersion step
               = getFutureVersion_p1 lib baseVersion newVersion step"
    by (simp add: getFutureVersion_def getFutureVersion_p1_def)
qed

theorem getFutureVersion_revisions_witness:
  "agreeCondition (releaseOf refLib ''2.0.0'') (releaseOf refLib ''2.0.3'') 1
   \<and> getFutureVersion refLib ''2.0.0'' ''2.0.3'' 1 = getFutureVersion_p1 refLib ''2.0.0'' ''2.0.3'' 1
   \<and> getFutureVersion_p1 refLib ''2.0.0'' ''2.0.3'' 1 = ''2.0.4''"
proof -
  have h: "agreeCondition (releaseOf refLib ''2.0.0'') (releaseOf refLib ''2.0.3'') 1"
    and v: "getFutureVersion_p1 refLib ''2.0.0'' ''2.0.3'' 1 = ''2.0.4''"
    by code_simp+
  from getFutureVersion_revisions [of "[]" "[]" 1 refLib "''2.0.0''" "''2.0.3''"] h v
  show ?thesis by simp
qed

text \<open>For base 1.0.0, target 2.3.0 and step 1 \<^verbatim>\<open>range.ts\<close> returns 2.4.0 and \<^verbatim>\<open>part_001\<close> 3.0.0.\<close>

theorem getFutureVersion_revisions_counterexample:
  "getFutureVersion refLib ''1.0.0'' ''2.3.0'' 1 = ''2.4.0''
   \<and> getFutureVersion_p1 refLib ''1.0.0'' ''2.3.0'' 1 = ''3.0.0''
   \<and> getFutureVersion refLib ''1.0.0'' ''2.3.0'' 1 \<noteq> getFutureVersion_p1 refLib ''1.0.0'' ''2.3.0'' 1"
  by code_simp

section \<open>Properties of the clause rewriter\<close>

lemma mapThrowing_kept:
  assumes "\<And>x. x \<in> set xs \<Longrightarrow> f x = Inr None \<Longrightarrow> \<not> C x"
    and "\<And>x t. x \<in> set xs \<Longrightarrow> f x = Inr (Some t) \<Longrightarrow> t \<noteq> [] \<and> C x \<and> Q x t"
    and "mapThrowing f xs = Inr rs"
  shows "list_all2 (\<lambda>x t. f x = Inr (Some t) \<and> Q x t) (filter C xs) (filterBoolean rs)"
  using assms
proof (induction xs arbitrary: rs)
  case Nil
  then show ?case by simp
next
  case (Cons x xs)
  from Cons.prems(3) obtain y ys where y: "f x = Inr y" and ys: "mapThrowing f xs = Inr ys"
    and rs: "rs = y # ys"
    by (auto split: sum.splits)
  have IH: "list_all2 (\<lambda>x t. f x = Inr (Some t) \<and> Q x t) (filter C xs) (filterBoolean ys)"
    using Cons.prems(1,2) ys by (intro Cons.IH) auto
  show ?case
  proof (cases y)
    case None
    with y Cons.prems(1) [of x] have "\<not> C x" by simp
    with IH rs None show ?thesis by simp
  next
    case (Some t)
    with y Cons.prems(2) [of x t] have "t \<noteq> []" "C x" "Q x t" by simp_all
    with IH rs Some y show ?thesis by simp
  qed
qed

lemma rewriteRange_None:
  "rewriteRange lib s nv rng = Inr None \<Longrightarrow> \<not> classifiable rng"
  by (auto simp: rewriteRange_def classifiable_def split: if_splits sum.splits)

lemma rewriteRange_Some:
  "rewriteRange lib s nv rng = Inr (Some t) \<Longrightarrow>
     t \<noteq> [] \<and> classifiable rng \<and> (operator rng = ''!='' \<longrightarrow> t = operator rng @ version rng)"
  by (auto simp: rewriteRange_def classifiable_def split: if_splits sum.splits)

lemma rewriteRange_p1_None:
  "rewriteRange_p1 lib s nv ranges rng = Inr None \<Longrightarrow> \<not> classifiable rng"
  by (auto simp: rewriteRange_p1_def classifiable_def Let_def split: if_splits sum.splits option.splits)

lemma rewriteRange_p1_Some:
  "rewriteRange_p1 lib s nv ranges rng = Inr (Some t) \<Longrightarrow>
     t \<noteq> [] \<and> classifiable rng \<and> (operator rng = ''!='' \<longrightarrow> t = operator rng @ version rng)"
  by (auto simp: rewriteRange_p1_def classifiable_def Let_def split: if_splits sum.splits option.splits)

text \<open>
  C4 (amended). For a clause with operator \<^verbatim>\<open>>=\<close> whose version is strictly below the
  new version (\<^verbatim>\<open>lte(newVersion, range.version)\<close> is false): the rewriter of \<^verbatim>\<open>part_001\<close>
  emits \<^verbatim>\<open>>=\<close> followed by the new version when the strategy is \<^verbatim>\<open>replace\<close> or \<^verbatim>\<open>bump\<close>,
  and the clause unchanged under any other strategy; the rewriter of \<^verbatim>\<open>range.ts\<close> emits
  \<^verbatim>\<open>>=\<close> followed by the new version under \<^verbatim>\<open>bump\<close> only, and leaves the clause unchanged
  under \<^verbatim>\<open>replace\<close> too.
\<close>

theorem lower_bound_rule:
  assumes "operator rng = ''>=''" and "lte lib newVersion (version rng) = Inr False"
  shows "rewriteRange_p1 lib rangeStrategy newVersion ranges rng =
           Inr (Some (if rangeStrategy \<in> set [''replace'', ''bump''] then ''>='' @ newVersion
                      else ''>='' @ version rng))
       \<and> rewriteRange lib rangeStrategy newVersion rng =
           Inr (Some (if rangeStrategy = ''bump'' then ''>='' @ newVersion
                      else ''>='' @ version rng))"
  using assms by (simp add: rewriteRange_p1_def rewriteRange_def)

theorem lower_bound_rule_witness:
  "operator \<lparr>operator = ''>='', prefix = [], version = ''1.0.0''\<rparr> = ''>=''
   \<and> lte refLib ''2.3.0'' ''1.0.0'' = Inr False
   \<and> rewriteRange_p1 refLib ''replace'' ''2.3.0'' [] \<lparr>operator = ''>='', prefix = [], version = ''1.0.0''\<rparr>
       = Inr (Some ''>=2.3.0'')
   \<and> rewriteRange refLib ''replace'' ''2.3.0'' \<lparr>operator = ''>='', prefix = [], version = ''1.0.0''\<rparr>
       = Inr (Some ''>=1.0.0'')"
proof -
  have h: "operator \<lparr>operator = ''>='', prefix = [], version = ''1.0.0''\<rparr> = ''>=''"
    "lte refLib ''2.3.0'' (version \<lparr>operator = ''>='', prefix = [], version = ''1.0.0''\<rparr>) = Inr False"
    by code_simp+
  from lower_bound_rule [OF h, of "''replace''" "[]"] h show ?thesis by simp
qed

text \<open>
  In \<^verbatim>\<open>range.ts\<close> the clause \<^verbatim>\<open>>=1.0.0\<close> with new version 2.3.0 under \<^verbatim>\<open>replace\<close> stays
  \<^verbatim>\<open>>=1.0.0\<close>.
\<close>

theorem lower_bound_rule_counterexample:
  "lte refLib ''2.3.0'' ''1.0.0'' = Inr False
   \<and> rewriteRange refLib ''replace'' ''2.3.0'' \<lparr>operator = ''>='', prefix = [], version = ''1.0.0''\<rparr>
       = Inr (Some ''>=1.0.0'')
   \<and> rewriteRange refLib ''replace'' ''2.3.0'' \<lparr>operator = ''>='', prefix = [], version = ''1.0.0''\<rparr>
       \<noteq> Inr (Some ''>=2.3.0'')"
  by code_simp

text \<open>
  When the rewriting of the clauses of a constraint returns (no library call throws),
  the rewritten texts that \<^verbatim>\<open>filter(Boolean)\<close> keeps correspond position by position to
  the clauses the rule table classifies, in their input order: each kept text is the
  rewrite of its clause, only clauses without a rule are dropped, and the text of a
  \<^verbatim>\<open>!=\<close> clause is its operator followed by the field \<^verbatim>\<open>version\<close>. This holds in both
  revisions.
\<close>

lemma rewrite_keeps_order:
  "(mapThrowing (rewriteRange lib rangeStrategy newVersion) ranges = Inr rs \<longrightarrow>
      list_all2 (\<lambda>rng text. rewriteRange lib rangeStrategy newVersion rng = Inr (Some text)
                   \<and> (operator rng = ''!='' \<longrightarrow> text = operator rng @ version rng))
        (filter classifiable ranges) (filterBoolean rs))
   \<and> (mapThrowing (rewriteRange_p1 lib rangeStrategy newVersion ranges) ranges = Inr rs1 \<longrightarrow>
      list_all2 (\<lambda>rng text. rewriteRange_p1 lib rangeStrategy newVersion ranges rng = Inr (Some text)
                   \<and> (operator rng = ''!='' \<longrightarrow> text = operator rng @ version rng))
        (filter classifiable ranges) (filterBoolean rs1))"
proof (intro conjI impI)
  assume "mapThrowing (rewriteRange lib rangeStrategy newVersion) ranges = Inr rs"
  with rewriteRange_None rewriteRange_Some
  show "list_all2 (\<lambda>rng text. rewriteRange lib rangeStrategy newVersion rng = Inr (Some text)
                   \<and> (operator rng = ''!='' \<longrightarrow> text = operator rng @ version rng))
        (filter classifiable ranges) (filterBoolean rs)"
    by (intro mapThrowing_kept) blast+
next
  assume "mapThrowing (rewriteRange_p1 lib rangeStrategy newVersion ranges) ranges = Inr rs1"
  with rewriteRange_p1_None rewriteRange_p1_Some
  show "list_all2 (\<lambda>rng text. rewriteRange_p1 lib rangeStrategy newVersion ranges rng = Inr (Some text)
                   \<and> (operator rng = ''!='' \<longrightarrow> text = operator rng @ version rng))
        (filter classifiable ranges) (filterBoolean rs1)"
    by (intro mapThrowing_kept) blast+
qed


section \<open>Properties of \<^verbatim>\<open>getNewValue\<close>\<close>

text \<open>
  C9 (the code departs from it). Order is kept and only clauses without a rule are
  dropped (lemma \<open>rewrite_keeps_order\<close>), but a \<^verbatim>\<open>!=\<close> clause does not reappear verbatim
  when it carries a wildcard: the rule for \<^verbatim>\<open>!=\<close> returns \<^verbatim>\<open>range.operator + range.version\<close>
  before the branch that re-appends \<^verbatim>\<open>.*\<close> is reached, and the parsed version text does not
  hold the suffix. So \<^verbatim>\<open>!=1.3.*\<close> comes back as \<^verbatim>\<open>!=1.3\<close>, for every library, strategy and
  new version. On \<^verbatim>\<open>>=1.0.0,!=1.3.*,<2.0.0\<close> with new version 2.2.0, \<^verbatim>\<open>getNewValue\<close> returns
  \<^verbatim>\<open>>=1.0.0,!=1.3,<2.3.0\<close> (\<^verbatim>\<open>range.ts\<close> under \<^verbatim>\<open>replace\<close>, \<^verbatim>\<open>part_001\<close> under \<^verbatim>\<open>widen\<close>), which
  admits 1.3.5, a version the input excluded.
\<close>

theorem getNewValue_exclusion_wildcard:
  "rewriteRange lib rangeStrategy newVersion \<lparr>operator = ''!='', prefix = ''.*'', version = v\<rparr>
     = Inr (Some (''!='' @ v))
   \<and> rewriteRange_p1 lib rangeStrategy newVersion ranges \<lparr>operator = ''!='', prefix = ''.*'', version = v\<rparr>
     = Inr (Some (''!='' @ v))
   \<and> parseRange refLib ''>=1.0.0,!=1.3.*,<2.0.0''
     = Some [\<lparr>operator = ''>='', prefix = [], version = ''1.0.0''\<rparr>,
             \<lparr>operator = ''!='', prefix = ''.*'', version = ''1.3''\<rparr>,
             \<lparr>operator = ''<'', prefix = [], version = ''2.0.0''\<rparr>]
   \<and> getNewValue refLib ''>=1.0.0,!=1.3.*,<2.0.0'' ''replace'' ''1.0.0'' ''2.2.0''
     = Inr (Some ''>=1.0.0,!=1.3,<2.3.0'')
   \<and> getNewValue_p1 refLib ''>=1.0.0,!=1.3.*,<2.0.0'' ''widen'' ''1.0.0'' ''2.2.0''
     = Inr (Some ''>=1.0.0,!=1.3,<2.3.0'')
   \<and> getNewValue_p1 refLib ''>=1.0.0,!=1.3.*,<2.0.0'' ''bump'' ''1.0.0'' ''2.2.0''
     = Inr (Some ''>=2.2.0,!=1.3,<2.3.0'')
   \<and> satisfies refLib ''1.3.5'' ''>=1.0.0,!=1.3.*,<2.0.0'' = Inr False
   \<and> satisfies refLib ''1.3.5'' ''>=1.0.0,!=1.3,<2.3.0'' = Inr True"
proof -
  have "rewriteRange lib rangeStrategy newVersion \<lparr>operator = ''!='', prefix = ''.*'', version = v\<rparr>
     = Inr (Some (''!='' @ v))"
    by (simp add: rewriteRange_def)
  moreover have "rewriteRange_p1 lib rangeStrategy newVersion ranges \<lparr>operator = ''!='', prefix = ''.*'', version = v\<rparr>
     = Inr (Some (''!='' @ v))"
    by (simp add: rewriteRange_p1_def)
  moreover have "parseRange refLib ''>=1.0.0,!=1.3.*,<2.0.0''
     = Some [\<lparr>operator = ''>='', prefix = [], version = ''1.0.0''\<rparr>,
             \<lparr>operator = ''!='', prefix = ''.*'', version = ''1.3''\<rparr>,
             \<lparr>operator = ''<'', prefix = [], version = ''2.0.0''\<rparr>]" by code_simp
  moreover have "getNewValue refLib ''>=1.0.0,!=1.3.*,<2.0.0'' ''replace'' ''1.0.0'' ''2.2.0''
     = Inr (Some ''>=1.0.0,!=1.3,<2.3.0'')" by code_simp
  moreover have "getNewValue_p1 refLib ''>=1.0.0,!=1.3.*,<2.0.0'' ''widen'' ''1.0.0'' ''2.2.0''
     = Inr (Some ''>=1.0.0,!=1.3,<2.3.0'')" by code_simp
  moreover have "getNewValue_p1 refLib ''>=1.0.0,!=1.3.*,<2.0.0'' ''bump'' ''1.0.0'' ''2.2.0''
     = Inr (Some ''>=2.2.0,!=1.3,<2.3.0'')" by code_simp
  moreover have "satisfies refLib ''1.3.5'' ''>=1.0.0,!=1.3.*,<2.0.0'' = Inr False" by code_simp
  moreover have "satisfies refLib ''1.3.5'' ''>=1.0.0,!=1.3,<2.3.0'' = Inr True" by code_simp
  ultimately show ?thesis by blast
qed

lemma getNewValue_accepted_validated:
  assumes "rangeStrategy \<in> set [''replace'', ''bump'']" and "currentValue \<noteq> currentVersion"
    and "parseRange lib currentValue \<noteq> Some []"
    and "getNewValue lib currentValue rangeStrategy currentVersion newVersion = Inr (Some R)"
  shows "satisfies lib newVersion R = Inr True"
  using assms(4) assms(1-3)
  by (subst (asm) getNewValue.simps)
     (auto simp: Let_def split: option.splits sum.splits if_splits)

lemma getNewValue_validated:
  assumes "rangeStrategy \<noteq> ''pin''" and "currentValue \<noteq> currentVersion"
    and "parseRange lib currentValue \<noteq> Some []"
    and "getNewValue lib currentValue rangeStrategy currentVersion newVersion = Inr (Some R)"
  shows "satisfies lib newVersion R = Inr True"
proof (cases "rangeStrategy \<in> set [''replace'', ''bump'']")
  case True
  from getNewValue_accepted_validated [OF True assms(2,3,4)] show ?thesis .
next
  case False
  have r: "''replace'' \<in> set [''replace'', ''bump'']" by simp
  from assms(4) False assms(1-3)
  have "satisfies lib newVersion R = Inr True
        \<or> getNewValue lib currentValue ''replace'' currentVersion newVersion = Inr (Some R)"
    by (subst (asm) getNewValue.simps)
       (auto simp: Let_def split: option.splits sum.splits if_splits)
  with getNewValue_accepted_validated [OF r assms(2,3)] show ?thesis by blast
qed

lemma getNewValue_p1_accepted_validated:
  assumes "rangeStrategy \<in> set [''replace'', ''bump'', ''widen'']" and "currentValue \<noteq> currentVersion"
    and "parseRange lib currentValue \<noteq> Some []"
    and "getNewValue_p1 lib currentValue rangeStrategy currentVersion newVersion = Inr (Some R)"
  shows "satisfies lib newVersion R = Inr True"
  using assms(4) assms(1-3)
  by (subst (asm) getNewValue_p1.simps)
     (auto simp: Let_def split: option.splits sum.splits if_splits)

lemma getNewValue_p1_validated:
  assumes "rangeStrategy \<noteq> ''pin''" and "currentValue \<noteq> currentVersion"
    and "parseRange lib currentValue \<noteq> Some []"
    and "getNewValue_p1 lib currentValue rangeStrategy currentVersion newVersion = Inr (Some R)"
  shows "satisfies lib newVersion R = Inr True"
proof (cases "rangeStrategy \<in> set [''replace'', ''bump'', ''widen'']")
  case True
  from getNewValue_p1_accepted_validated [OF True assms(2,3,4)] show ?thesis .
next
  case False
  have r: "''replace'' \<in> set [''replace'', ''bump'', ''widen'']" by simp
  from assms(4) False assms(1-3)
  have "satisfies lib newVersion R = Inr True
        \<or> getNewValue_p1 lib currentValue ''replace'' currentVersion newVersion = Inr (Some R)"
    by (subst (asm) getNewValue_p1.simps)
       (auto simp: Let_def split: option.splits sum.splits if_splits)
  with getNewValue_p1_accepted_validated [OF r assms(2,3)] show ?thesis by blast
qed

text \<open>
  C1 (amended). A non-null result \<open>R\<close> of \<^verbatim>\<open>getNewValue\<close> is satisfied by the new version
  whenever the call passes the three early returns that hand back a string without
  validating it: the strategy is not \<^verbatim>\<open>pin\<close>, \<^verbatim>\<open>currentValue\<close> is not textually equal to
  \<^verbatim>\<open>currentVersion\<close>, and the parsed clause sequence is not empty. The result then comes
  from the \<^verbatim>\<open>auto\<close>/\<^verbatim>\<open>replace\<close> shortcut or from the final re-validation, in both revisions.
\<close>

theorem getNewValue_result_satisfied:
  assumes "rangeStrategy \<noteq> ''pin''" and "currentValue \<noteq> currentVersion"
    and "parseRange lib currentValue \<noteq> Some []"
  shows "(getNewValue lib currentValue rangeStrategy currentVersion newVersion = Inr (Some R)
            \<longrightarrow> satisfies lib newVersion R = Inr True)
       \<and> (getNewValue_p1 lib currentValue rangeStrategy currentVersion newVersion = Inr (Some R1)
            \<longrightarrow> satisfies lib newVersion R1 = Inr True)"
  using getNewValue_validated [OF assms] getNewValue_p1_validated [OF assms] by blast

theorem getNewValue_result_satisfied_witness:
  "''bump'' \<noteq> ''pin'' \<and> ''>=1.0.0'' \<noteq> ''1.0.0'' \<and> parseRange refLib ''>=1.0.0'' \<noteq> Some []
   \<and> getNewValue refLib ''>=1.0.0'' ''bump'' ''1.0.0'' ''1.2.0'' = Inr (Some ''>=1.2.0'')
   \<and> getNewValue_p1 refLib ''>=1.0.0'' ''bump'' ''1.0.0'' ''1.2.0'' = Inr (Some ''>=1.2.0'')
   \<and> satisfies refLib ''1.2.0'' ''>=1.2.0'' = Inr True"
proof -
  have h: "''bump'' \<noteq> ''pin''" "''>=1.0.0'' \<noteq> ''1.0.0''" "parseRange refLib ''>=1.0.0'' \<noteq> Some []"
    by code_simp+
  have v: "getNewValue refLib ''>=1.0.0'' ''bump'' ''1.0.0'' ''1.2.0'' = Inr (Some ''>=1.2.0'')"
    "getNewValue_p1 refLib ''>=1.0.0'' ''bump'' ''1.0.0'' ''1.2.0'' = Inr (Some ''>=1.2.0'')"
    by code_simp+
  from getNewValue_result_satisfied
         [OF h, where newVersion = "''1.2.0''" and R = "''>=1.2.0''" and ?R1.0 = "''>=1.2.0''"] v h
  show ?thesis by blast
qed

text \<open>
  The early return for \<^verbatim>\<open>currentValue\<close> equal to \<^verbatim>\<open>currentVersion\<close> hands back the bare new
  version, which is no constraint: 1.0.0 pinned as 1.0.0, new version 1.2.0.
\<close>

theorem getNewValue_result_satisfied_counterexample:
  "getNewValue refLib ''1.0.0'' ''replace'' ''1.0.0'' ''1.2.0'' = Inr (Some ''1.2.0'')
   \<and> getNewValue_p1 refLib ''1.0.0'' ''replace'' ''1.0.0'' ''1.2.0'' = Inr (Some ''1.2.0'')
   \<and> satisfies refLib ''1.2.0'' ''1.2.0'' = Inr False"
  by code_simp

text \<open>
  C6 (amended). For every constraint string \<open>C\<close> that parses, every version \<open>V\<close> that
  satisfies \<open>C\<close>, and \<^verbatim>\<open>currentVersion\<close> not textually equal to \<open>C\<close>, \<^verbatim>\<open>getNewValue\<close> with
  strategy \<^verbatim>\<open>auto\<close> or \<^verbatim>\<open>replace\<close> returns \<open>C\<close> unchanged, in both revisions.
\<close>

theorem getNewValue_in_range_unchanged:
  assumes "parseRange lib currentValue = Some ranges"
    and "satisfies lib newVersion currentValue = Inr True"
    and "rangeStrategy = ''auto'' \<or> rangeStrategy = ''replace''"
    and "currentValue \<noteq> currentVersion"
  shows "getNewValue lib currentValue rangeStrategy currentVersion newVersion = Inr (Some currentValue)
       \<and> getNewValue_p1 lib currentValue rangeStrategy currentVersion newVersion = Inr (Some currentValue)"
proof -
  from assms(3) have np: "rangeStrategy \<noteq> ''pin''" by auto
  from assms np
  have "getNewValue lib currentValue rangeStrategy currentVersion newVersion = Inr (Some currentValue)"
    by (subst getNewValue.simps) auto
  moreover from assms np
  have "getNewValue_p1 lib currentValue rangeStrategy currentVersion newVersion = Inr (Some currentValue)"
    by (subst getNewValue_p1.simps) auto
  ultimately show ?thesis by simp
qed

theorem getNewValue_in_range_unchanged_witness:
  "parseRange refLib ''>=1.0.0'' = Some [\<lparr>operator = ''>='', prefix = [], version = ''1.0.0''\<rparr>]
   \<and> satisfies refLib ''1.2.0'' ''>=1.0.0'' = Inr True
   \<and> ''>=1.0.0'' \<noteq> ''1.0.0''
   \<and> getNewValue refLib ''>=1.0.0'' ''auto'' ''1.0.0'' ''1.2.0'' = Inr (Some ''>=1.0.0'')
   \<and> getNewValue_p1 refLib ''>=1.0.0'' ''auto'' ''1.0.0'' ''1.2.0'' = Inr (Some ''>=1.0.0'')"
proof -
  have h: "parseRange refLib ''>=1.0.0'' = Some [\<lparr>operator = ''>='', prefix = [], version = ''1.0.0''\<rparr>]"
    "satisfies refLib ''1.2.0'' ''>=1.0.0'' = Inr True"
    "''auto'' = ''auto'' \<or> ''auto'' = ''replace''"
    "''>=1.0.0'' \<noteq> ''1.0.0''"
    by code_simp+
  from getNewValue_in_range_unchanged [OF h] h show ?thesis by blast
qed

text \<open>
  When \<^verbatim>\<open>currentValue\<close> and \<^verbatim>\<open>currentVersion\<close> are the same text the earlier return wins:
  the empty constraint with the empty current version returns the new version.
\<close>

theorem getNewValue_in_range_unchanged_counterexample:
  "parseRange refLib [] = Some [] \<and> satisfies refLib ''1.2.0'' [] = Inr True
   \<and> getNewValue refLib [] ''auto'' [] ''1.2.0'' = Inr (Some ''1.2.0'')
   \<and> getNewValue_p1 refLib [] ''auto'' [] ''1.2.0'' = Inr (Some ''1.2.0'')
   \<and> getNewValue refLib [] ''auto'' [] ''1.2.0'' \<noteq> Inr (Some [])"
  by code_simp

lemma future_2_4_0: "futureRelease [2, 0, 0] [2, 3, 0] (Suc 0) = [2, 4, 0]"
  by code_simp

lemma show_digits: "showNat 0 = ''0''" "showNat 2 = ''2''" "showNat 3 = ''3''" "showNat 4 = ''4''"
  by code_simp+

text \<open>
  C2 (amended). For \<^verbatim>\<open>currentValue\<close> \<^verbatim>\<open>>=1.0.0,<2.0.0\<close>, strategy \<^verbatim>\<open>replace\<close>, current version
  1.5.0 and new version 2.3.0, \<^verbatim>\<open>getNewValue\<close> of \<^verbatim>\<open>part_001\<close> returns \<^verbatim>\<open>>=2.3.0,<3.0.0\<close>:
  the upper bound advances at the inferred Major precision and the lower bound is
  tightened to the new version by the \<^verbatim>\<open>replace\<close> rule for \<^verbatim>\<open>>=\<close>. \<^verbatim>\<open>getNewValue\<close> of
  \<^verbatim>\<open>range.ts\<close> returns \<^verbatim>\<open>>=1.0.0,<2.4.0\<close>. The hypotheses are the library's answers on the
  strings of the scenario.
\<close>

theorem getNewValue_replace_scenario:
  assumes "parseRange lib ''>=1.0.0,<2.0.0'' =
             Some [\<lparr>operator = ''>='', prefix = [], version = ''1.0.0''\<rparr>,
                   \<lparr>operator = ''<'', prefix = [], version = ''2.0.0''\<rparr>]"
    and "satisfies lib ''2.3.0'' ''>=1.0.0,<2.0.0'' = Inr False"
    and "lte lib ''2.3.0'' ''1.0.0'' = Inr False"
    and "gte lib ''2.3.0'' ''2.0.0'' = Inr True"
    and "parseVersion lib ''1.0.0'' = Some [1, 0, 0]"
    and "parseVersion lib ''2.0.0'' = Some [2, 0, 0]"
    and "parseVersion lib ''2.3.0'' = Some [2, 3, 0]"
    and "satisfies lib ''2.3.0'' ''>=2.3.0,<3.0.0'' = Inr True"
    and "satisfies lib ''2.3.0'' ''>=1.0.0,<2.4.0'' = Inr True"
  shows "getNewValue_p1 lib ''>=1.0.0,<2.0.0'' ''replace'' ''1.5.0'' ''2.3.0''
           = Inr (Some ''>=2.3.0,<3.0.0'')
       \<and> getNewValue lib ''>=1.0.0,<2.0.0'' ''replace'' ''1.5.0'' ''2.3.0''
           = Inr (Some ''>=1.0.0,<2.4.0'')"
proof
  have p: "getUserReplacePrecision lib
             [\<lparr>operator = ''>='', prefix = [], version = ''1.0.0''\<rparr>,
              \<lparr>operator = ''<'', prefix = [], version = ''2.0.0''\<rparr>] = Some Major"
    using assms(5,6) by (simp add: getUserReplacePrecision_def releaseOf_def policyOfIndex_def)
  have f: "getFutureReplaceVersion lib ''2.3.0'' Major = ''3.0.0''"
    using assms(7)
    by (simp add: getFutureReplaceVersion_def releaseOf_def show_digits
          upt_rec [of 0] upt_rec [of 1] upt_rec [of 2])
  have m: "mapThrowing (rewriteRange_p1 lib ''replace'' ''2.3.0''
               [\<lparr>operator = ''>='', prefix = [], version = ''1.0.0''\<rparr>,
                \<lparr>operator = ''<'', prefix = [], version = ''2.0.0''\<rparr>])
             [\<lparr>operator = ''>='', prefix = [], version = ''1.0.0''\<rparr>,
              \<lparr>operator = ''<'', prefix = [], version = ''2.0.0''\<rparr>]
           = Inr [Some ''>=2.3.0'', Some ''<3.0.0'']"
    using assms(3,4) by (simp add: rewriteRange_p1_def p f)
  show "getNewValue_p1 lib ''>=1.0.0,<2.0.0'' ''replace'' ''1.5.0'' ''2.3.0''
           = Inr (Some ''>=2.3.0,<3.0.0'')"
    using assms(1,2,8) by (subst getNewValue_p1.simps) (simp add: m del: mapThrowing.simps)
next
  have f: "getFutureVersion lib ''2.0.0'' ''2.3.0'' (Suc 0) = ''2.4.0''"
    using assms(6,7) by (simp add: getFutureVersion_def releaseOf_def future_2_4_0 show_digits)
  have m: "mapThrowing (rewriteRange lib ''replace'' ''2.3.0'')
             [\<lparr>operator = ''>='', prefix = [], version = ''1.0.0''\<rparr>,
              \<lparr>operator = ''<'', prefix = [], version = ''2.0.0''\<rparr>]
           = Inr [Some ''>=1.0.0'', Some ''<2.4.0'']"
    using assms(3,4) by (simp add: rewriteRange_def f)
  show "getNewValue lib ''>=1.0.0,<2.0.0'' ''replace'' ''1.5.0'' ''2.3.0''
           = Inr (Some ''>=1.0.0,<2.4.0'')"
    using assms(1,2,9) by (subst getNewValue.simps) (simp add: m del: mapThrowing.simps)
qed

theorem getNewValue_replace_scenario_witness:
  "getNewValue_p1 refLib ''>=1.0.0,<2.0.0'' ''replace'' ''1.5.0'' ''2.3.0''
           = Inr (Some ''>=2.3.0,<3.0.0'')
       \<and> getNewValue refLib ''>=1.0.0,<2.0.0'' ''replace'' ''1.5.0'' ''2.3.0''
           = Inr (Some ''>=1.0.0,<2.4.0'')"
proof (rule getNewValue_replace_scenario)
  show "parseRange refLib ''>=1.0.0,<2.0.0'' =
             Some [\<lparr>operator = ''>='', prefix = [], version = ''1.0.0''\<rparr>,
                   \<lparr>operator = ''<'', prefix = [], version = ''2.0.0''\<rparr>]" by code_simp
  show "satisfies refLib ''2.3.0'' ''>=1.0.0,<2.0.0'' = Inr False" by code_simp
  show "lte refLib ''2.3.0'' ''1.0.0'' = Inr False" by code_simp
  show "gte refLib ''2.3.0'' ''2.0.0'' = Inr True" by code_simp
  show "parseVersion refLib ''1.0.0'' = Some [1, 0, 0]" by code_simp
  show "parseVersion refLib ''2.0.0'' = Some [2, 0, 0]" by code_simp
  show "parseVersion refLib ''2.3.0'' = Some [2, 3, 0]" by code_simp
  show "satisfies refLib ''2.3.0'' ''>=2.3.0,<3.0.0'' = Inr True" by code_simp
  show "satisfies refLib ''2.3.0'' ''>=1.0.0,<2.4.0'' = Inr True" by code_simp
qed

text \<open>Neither revision returns the \<^verbatim>\<open>>=1.0.0,<3.0.0\<close> of the specification's scenario.\<close>

theorem getNewValue_replace_scenario_counterexample:
  "getNewValue_p1 refLib ''>=1.0.0,<2.0.0'' ''replace'' ''1.5.0'' ''2.3.0''
     \<noteq> Inr (Some ''>=1.0.0,<3.0.0'')
   \<and> getNewValue refLib ''>=1.0.0,<2.0.0'' ''replace'' ''1.5.0'' ''2.3.0''
     \<noteq> Inr (Some ''>=1.0.0,<3.0.0'')"
  by code_simp

section \<open>Properties of \<^verbatim>\<open>isLessThanRange\<close>\<close>

lemma checkClauses_Inr:
  "checkClauses lib input flag cs = Inr (rs, flag') \<Longrightarrow>
     rs = map (clauseResult_spec lib input) cs \<and> flag' = (flag \<and> \<not> list_ex restrictive_spec cs)"
proof (induction cs arbitrary: flag rs flag')
  case Nil
  then show ?case by auto
next
  case (Cons c cs)
  obtain oper ver where c: "c = (oper, ver)" by (cases c)
  show ?case
  proof (cases "oper \<in> set [Some ''!='', Some ''<='', Some ''<'']")
    case True
    with Cons.prems c obtain rs' where
      r: "checkClauses lib input flag cs = Inr (rs', flag')" and rs: "rs = True # rs'"
      by (auto split: sum.splits)
    from Cons.IH [OF r] rs c True show ?thesis
      by (auto simp: clauseResult_spec_def restrictive_spec_def)
  next
    case False
    with Cons.prems c obtain res rs' where
      v: "(if oper \<in> set [Some ''~='', Some ''=='', Some ''>='', Some ''===''] then
                 compareWith (lt lib) input ver
               else if oper = Some ''>'' then compareWith (lte lib) input ver
               else Inr False) = Inr res"
      and r: "checkClauses lib input False cs = Inr (rs', flag')" and rs: "rs = res # rs'"
      by (auto split: sum.splits simp del: set_simps)
    from v False have "res = clauseResult_spec lib input (oper, ver)"
      by (auto simp: clauseResult_spec_def split: if_splits)
    with Cons.IH [OF r] rs c False show ?thesis
      by (simp add: restrictive_spec_def)
  qed
qed

lemma checkClauses_Inl:
  "checkClauses lib input flag cs = Inl e \<Longrightarrow>
     list_ex restrictive_spec cs \<and> \<not> list_all (clauseResult_spec lib input) cs"
proof (induction cs arbitrary: flag)
  case Nil
  then show ?case by simp
next
  case (Cons c cs)
  obtain oper ver where c: "c = (oper, ver)" by (cases c)
  show ?case
  proof (cases "oper \<in> set [Some ''!='', Some ''<='', Some ''<'']")
    case True
    with Cons.prems c have "checkClauses lib input flag cs = Inl e"
      by (auto split: sum.splits)
    from Cons.IH [OF this] show ?thesis by simp
  next
    case False
    then have rc: "restrictive_spec c" by (simp add: restrictive_spec_def c)
    show ?thesis
    proof (cases "(if oper \<in> set [Some ''~='', Some ''=='', Some ''>='', Some ''===''] then
                 compareWith (lt lib) input ver
               else if oper = Some ''>'' then compareWith (lte lib) input ver
               else Inr False)")
      case (Inl e')
      with False have "\<not> clauseResult_spec lib input c"
        by (auto simp: clauseResult_spec_def c split: if_splits)
      with rc show ?thesis by simp
    next
      case (Inr res)
      with Cons.prems c False have "checkClauses lib input False cs = Inl e"
        by (auto split: sum.splits simp del: set_simps)
      from Cons.IH [OF this] rc show ?thesis by simp
    qed
  qed
qed

lemma every_true: "list_all (\<lambda>res. res = True) (map f cs) = list_all f cs"
  by (induction cs) auto

lemma checkClauses_result:
  "(case (case checkClauses lib input True cs of
            Inl e \<Rightarrow> Inl e
          | Inr (results, invertResult) \<Rightarrow>
              Inr (if invertResult then \<not> list_all (\<lambda>res. res = True) results
                   else list_all (\<lambda>res. res = True) results)) of
      Inl err \<Rightarrow> False | Inr b \<Rightarrow> b)
   = (if list_ex restrictive_spec cs then list_all (clauseResult_spec lib input) cs
      else \<not> list_all (clauseResult_spec lib input) cs)"
proof (cases "checkClauses lib input True cs")
  case (Inl e)
  from checkClauses_Inl [OF Inl] show ?thesis by (simp only: Inl sum.case if_True)
next
  case (Inr p)
  obtain rs flag where p: "p = (rs, flag)" by (cases p)
  from checkClauses_Inr [OF Inr [unfolded p]]
  have rs: "rs = map (clauseResult_spec lib input) cs" and flag: "flag = (\<not> list_ex restrictive_spec cs)"
    by simp_all
  show ?thesis
    by (simp only: Inr p sum.case prod.case rs flag every_true) simp
qed

lemma isLessThanRange_table:
  "isLessThanRange lib input rng = isBelowRange_spec lib input rng"
  unfolding isLessThanRange_def isLessThanRange_try_def isBelowRange_spec_def Let_def
  by (rule checkClauses_result)

lemma matchOperator_never_arbitrary: "matchOperator opTokens s \<noteq> Some ''===''"
proof
  assume a: "matchOperator opTokens s = Some ''===''"
  then have "take (Suc (Suc (Suc 0))) s = ''===''" "take (Suc (Suc 0)) s \<noteq> ''==''"
    by (auto simp: opTokens_def split: if_splits)
  moreover have "take (Suc (Suc 0)) s = take (Suc (Suc 0)) (take (Suc (Suc (Suc 0))) s)"
    by (simp add: min_def)
  ultimately show False by simp
qed

lemma splitOperators_second:
  "1 < length (splitOperators s) \<Longrightarrow> splitOperators s ! 1 \<noteq> ''===''"
proof (induction s rule: splitOperators.induct)
  case (1 s)
  show ?case
  proof (cases "s = []")
    case True
    with "1.prems" show ?thesis by (simp add: splitOperators.simps)
  next
    case False
    show ?thesis
    proof (cases "matchOperator opTokens s")
      case None
      let ?r = "splitOperators (tl s)"
      from False None have eq: "splitOperators s = (hd s # hd ?r) # tl ?r"
        by (subst splitOperators.simps) (simp add: Let_def)
      with "1.prems" have "1 < length ?r" by simp
      with "1.IH"(1) [OF False None] have "?r ! 1 \<noteq> ''===''" by simp
      moreover from \<open>1 < length ?r\<close> have "tl ?r ! 0 = ?r ! 1" by (simp add: nth_tl)
      ultimately show ?thesis by (simp add: eq)
    next
      case (Some p)
      with False have "splitOperators s = [] # p # splitOperators (drop (length p) s)"
        by (subst splitOperators.simps) simp
      moreover from Some matchOperator_never_arbitrary [of s] have "p \<noteq> ''===''" by auto
      ultimately show ?thesis by simp
    qed
  qed
qed

lemma clauseTokens_never_arbitrary: "fst (clauseTokens x) \<noteq> Some ''===''"
  using splitOperators_second [of "removeSpaces x"]
  by (auto simp: clauseTokens_def Let_def)

lemma tokens_arbitrary: "clauseTokens ''===1.0.0'' = (Some ''=='', Some ''=1.0.0'')"
  by code_simp

lemma split_arbitrary: "splitOn CHR '','' ''===1.0.0'' = [''===1.0.0'']"
  by code_simp

text \<open>
  C7 (the code departs from it). The specification gives the clause table of
  \<^verbatim>\<open>isLessThanRange\<close>; on the tokenised clauses the function follows it (lemma
  \<open>isLessThanRange_table\<close>). The tokeniser, though, never yields the operator \<^verbatim>\<open>===\<close>: the
  regular expression lists \<^verbatim>\<open>==\<close> before \<^verbatim>\<open>===\<close>, so a clause written \<^verbatim>\<open>===1.0.0\<close> is split
  into the operator \<^verbatim>\<open>==\<close> and the version text \<^verbatim>\<open>=1.0.0\<close>, and the version is compared
  with \<^verbatim>\<open>=1.0.0\<close> instead of \<^verbatim>\<open>1.0.0\<close>. With a library that rejects \<^verbatim>\<open>=1.0.0\<close> the comparison
  throws and the result is false, although 0.5.0 is below 1.0.0.
\<close>

theorem isLessThanRange_arbitrary_equality:
  "fst (clauseTokens x) \<noteq> Some ''===''
   \<and> clauseTokens ''===1.0.0'' = (Some ''=='', Some ''=1.0.0'')
   \<and> isLessThanRange lib input ''===1.0.0'' = (lt lib input ''=1.0.0'' = Inr True)
   \<and> lt refLib ''0.5.0'' ''1.0.0'' = Inr True
   \<and> isLessThanRange refLib ''0.5.0'' ''===1.0.0'' = False"
proof -
  have "isLessThanRange lib input ''===1.0.0'' = (lt lib input ''=1.0.0'' = Inr True)"
    by (auto simp add: isLessThanRange_def isLessThanRange_try_def split_arbitrary tokens_arbitrary
          compareWith_def split: sum.splits)
  moreover have "lt refLib ''0.5.0'' ''1.0.0'' = Inr True" by code_simp
  moreover have "isLessThanRange refLib ''0.5.0'' ''===1.0.0'' = False" by code_simp
  ultimately show ?thesis
    using clauseTokens_never_arbitrary [of x] tokens_arbitrary by blast
qed

lemma clauseTokens_empty: "clauseTokens [] = (None, None)"
  by (simp add: clauseTokens_def removeSpaces_def splitOperators.simps)

text \<open>
  C8. \<^verbatim>\<open>isLessThanRange\<close> returns a boolean on every input: when the body of its
  \<^verbatim>\<open>try\<close> block throws, in tokenising or in a comparison, the result is false; and for
  the empty constraint string the result is false for every version.
\<close>

theorem isLessThanRange_catches:
  "(isLessThanRange_try lib input rng = Inl e \<longrightarrow> isLessThanRange lib input rng = False)
   \<and> isLessThanRange lib input [] = False"
  by (simp add: isLessThanRange_def isLessThanRange_try_def clauseTokens_empty)

theorem isLessThanRange_catches_witness:
  "isLessThanRange_try refLib ''0.5.0'' ''>=abc'' = Inl Thrown
   \<and> isLessThanRange refLib ''0.5.0'' ''>=abc'' = False
   \<and> isLessThanRange refLib ''0.5.0'' [] = False"
proof -
  have h: "isLessThanRange_try refLib ''0.5.0'' ''>=abc'' = Inl Thrown" by code_simp
  from isLessThanRange_catches [of refLib "''0.5.0''" "''>=abc''" Thrown] h show ?thesis by simp
qed

end
